theory Spec2Isabelle
  imports Complex_Main
begin

section \<open>Python values of \<^verbatim>\<open>kalman_filter\<close> (\<^verbatim>\<open>src/kalman_filter.py\<close>)\<close>

text \<open>
  A float64 is either NaN or a finite number. Finite numbers are idealised as reals
  (no rounding); NaN is kept as a value of its own, because the source uses it as the
  marker of a frame with no pose (lines 68-69) and tests for it with \<^verbatim>\<open>np.isnan\<close>
  (lines 74, 81, 88). Arithmetic propagates NaN and every comparison with NaN is false,
  as in IEEE 754. Of the overflows, the one that raises is modelled: Python's power
  operator on floats (see \<open>fl_pow\<close> below); the array operations of numpy do not raise
  on overflow.
\<close>

datatype fl = NaN | Fin real

fun isnan :: "fl \<Rightarrow> bool" where
  "isnan NaN = True"
| "isnan (Fin a) = False"

fun fl_add :: "fl \<Rightarrow> fl \<Rightarrow> fl" where
  "fl_add (Fin a) (Fin b) = Fin (a + b)"
| "fl_add _ _ = NaN"

fun fl_sub :: "fl \<Rightarrow> fl \<Rightarrow> fl" where
  "fl_sub (Fin a) (Fin b) = Fin (a - b)"
| "fl_sub _ _ = NaN"

fun fl_mul :: "fl \<Rightarrow> fl \<Rightarrow> fl" where
  "fl_mul (Fin a) (Fin b) = Fin (a * b)"
| "fl_mul _ _ = NaN"

text \<open>Division is only used with the literal divisors 2 and 4 (lines 106-108).\<close>

fun fl_div :: "fl \<Rightarrow> fl \<Rightarrow> fl" where
  "fl_div (Fin a) (Fin b) = Fin (a / b)"
| "fl_div _ _ = NaN"


fun fl_gt :: "fl \<Rightarrow> fl \<Rightarrow> bool" where
  "fl_gt (Fin a) (Fin b) = (a > b)"
| "fl_gt _ _ = False"

fun fl_lt :: "fl \<Rightarrow> fl \<Rightarrow> bool" where
  "fl_lt (Fin a) (Fin b) = (a < b)"
| "fl_lt _ _ = False"

type_synonym vec = "fl list"
type_synonym mat = "fl list list"

text \<open>
  A Python exception is a value: its class name and a message. A computation that may
  raise returns \<open>py_exception + 'a\<close>, with \<open>Inl\<close> for the exception, and \<open>ebind\<close>
  runs the next statement only when the previous one did not raise.
\<close>

datatype py_exception = Exc (exc_class: string) (exc_msg: string)

definition ebind :: "py_exception + 'a \<Rightarrow> ('a \<Rightarrow> py_exception + 'b) \<Rightarrow> py_exception + 'b" where
  "ebind m f = (case m of Inl e \<Rightarrow> Inl e | Inr v \<Rightarrow> f v)"

definition raises :: "string \<Rightarrow> py_exception + 'a \<Rightarrow> bool" where
  "raises cls res = (case res of Inl e \<Rightarrow> exc_class e = cls | Inr v \<Rightarrow> False)"

definition broadcast_error :: py_exception where
  "broadcast_error = Exc ''ValueError'' ''operands could not be broadcast together''"

definition matmul_error :: py_exception where
  "matmul_error = Exc ''ValueError'' ''matmul: mismatch in core dimension''"

definition reshape_error :: py_exception where
  "reshape_error = Exc ''ValueError'' ''cannot reshape array into shape (-1, 3)''"

definition empty_reduction_error :: py_exception where
  "empty_reduction_error = Exc ''ValueError'' ''zero-size array to reduction operation minimum which has no identity''"

definition too_many_indices_error :: py_exception where
  "too_many_indices_error = Exc ''IndexError'' ''too many indices for array''"

definition list_index_error :: py_exception where
  "list_index_error = Exc ''IndexError'' ''list index out of range''"

definition none_operand_error :: py_exception where
  "none_operand_error = Exc ''TypeError'' ''unsupported operand type: NoneType''"

definition zeros_error :: py_exception where
  "zeros_error = Exc ''TypeError'' ''zeros() missing required argument shape''"

definition from_matrix_error :: py_exception where
  "from_matrix_error = Exc ''ValueError'' ''Rotation.from_matrix''"

definition pinv_error :: py_exception where
  "pinv_error = Exc ''LinAlgError'' ''SVD did not converge''"

definition overflow_error :: py_exception where
  "overflow_error = Exc ''OverflowError'' ''Numerical result out of range''"

text \<open>
  \<^verbatim>\<open>x ** k\<close> for a Python float \<open>x\<close> and a literal exponent \<open>k\<close>: when the power is beyond
  the largest finite float64, \<open>float_max\<close>, Python raises OverflowError. A power of NaN
  is NaN. \<open>config_overflows dt\<close> says that one of the powers of \<open>dt\<close> that lines 100-108
  take overflows.
\<close>

definition float_max :: real where
  "float_max = (2 - 1 / 2 ^ 52) * 2 ^ 1023"

fun fl_pow :: "fl \<Rightarrow> nat \<Rightarrow> py_exception + fl" where
  "fl_pow (Fin a) k = (if \<bar>a ^ k\<bar> > float_max then Inl overflow_error else Inr (Fin (a ^ k)))"
| "fl_pow NaN k = Inr NaN"

definition pow_overflows :: "fl \<Rightarrow> nat \<Rightarrow> bool" where
  "pow_overflows dt k = (case dt of NaN \<Rightarrow> False | Fin a \<Rightarrow> \<bar>a ^ k\<bar> > float_max)"

definition config_overflows :: "fl \<Rightarrow> bool" where
  "config_overflows dt = (pow_overflows dt 2 \<or> pow_overflows dt 4 \<or> pow_overflows dt 3)"

section \<open>The history tables (lines 94-95)\<close>

text \<open>
  \<^verbatim>\<open>x = [[None] * n] * (n + 1)\<close> evaluates \<^verbatim>\<open>[None] * n\<close> once, to one list object, and
  then builds an outer list of \<open>n + 1\<close> references to that object. The model keeps the
  objects in a store, addressed by numbers, and the outer list as the list of addresses:
  two rows are the same object exactly when their addresses are equal. A cell holds
  \<open>None\<close> or a value.
\<close>

type_synonym addr = nat

record 'a table =
  rows :: "addr list"
  store :: "addr \<Rightarrow> 'a option list"

definition new_table :: "nat \<Rightarrow> 'a table" where
  "new_table n = \<lparr> rows = replicate (n + 1) 0, store = (\<lambda>a. [])(0 := replicate n None) \<rparr>"

text \<open>\<^verbatim>\<open>t[i][j]\<close>, with the IndexError of a list index out of range.\<close>

definition tbl_get :: "'a table \<Rightarrow> nat \<Rightarrow> nat \<Rightarrow> py_exception + 'a option" where
  "tbl_get t i j =
     (if i < length (rows t) then
        (let r = store t (rows t ! i) in
         if j < length r then Inr (r ! j) else Inl list_index_error)
      else Inl list_index_error)"

text \<open>\<^verbatim>\<open>t[i][j] = v\<close>: the row object that \<^verbatim>\<open>t[i]\<close> refers to is updated in place.\<close>

definition tbl_set :: "'a table \<Rightarrow> nat \<Rightarrow> nat \<Rightarrow> 'a \<Rightarrow> py_exception + 'a table" where
  "tbl_set t i j v =
     (if i < length (rows t) then
        (let a = rows t ! i; r = store t a in
         if j < length r then Inr (t\<lparr> store := (store t)(a := r[j := Some v]) \<rparr>)
         else Inl list_index_error)
      else Inl list_index_error)"

text \<open>Reading a cell for arithmetic: \<^verbatim>\<open>None @ ...\<close> is a TypeError.\<close>

definition need :: "'a option \<Rightarrow> py_exception + 'a" where
  "need c = (case c of None \<Rightarrow> Inl none_operand_error | Some v \<Rightarrow> Inr v)"

section \<open>The numpy operations the filter uses\<close>

text \<open>
  A one-dimensional array is a list, a two-dimensional array the list of its rows. numpy
  arrays are rectangular; \<open>is_mat r c\<close> says that a list of rows is an \<open>r \<times> c\<close> array.
\<close>

definition ncols :: "mat \<Rightarrow> nat" where
  "ncols M = (case M of [] \<Rightarrow> 0 | row # _ \<Rightarrow> length row)"

definition rect :: "mat \<Rightarrow> bool" where
  "rect M = list_all (\<lambda>row. length row = ncols M) M"

definition is_mat :: "nat \<Rightarrow> nat \<Rightarrow> mat \<Rightarrow> bool" where
  "is_mat r c M = (length M = r \<and> list_all (\<lambda>row. length row = c) M)"

definition np_zeros1 :: "nat \<Rightarrow> vec" where
  "np_zeros1 n = replicate n (Fin 0)"

definition np_zeros2 :: "nat \<Rightarrow> nat \<Rightarrow> mat" where
  "np_zeros2 r c = replicate r (replicate c (Fin 0))"

definition np_full :: "nat \<Rightarrow> nat \<Rightarrow> fl \<Rightarrow> mat" where
  "np_full r c v = replicate r (replicate c v)"

definition np_eye :: "nat \<Rightarrow> mat" where
  "np_eye n = map (\<lambda>i. map (\<lambda>j. if i = j then Fin 1 else Fin 0) [0..<n]) [0..<n]"

text \<open>\<^verbatim>\<open>np.diag(v)\<close> of a list: the square array with \<open>v\<close> on the diagonal.\<close>

definition np_diag :: "vec \<Rightarrow> mat" where
  "np_diag v = map (\<lambda>i. map (\<lambda>j. if i = j then v ! i else Fin 0) [0..<length v]) [0..<length v]"

text \<open>\<^verbatim>\<open>np.kron(A, B)\<close>: the block array whose block \<open>(i, j)\<close> is \<open>A[i][j] * B\<close>.\<close>

definition np_kron :: "mat \<Rightarrow> mat \<Rightarrow> mat" where
  "np_kron A B =
     concat (map (\<lambda>arow. map (\<lambda>brow. concat (map (\<lambda>a. map (fl_mul a) brow) arow)) B) A)"

text \<open>\<^verbatim>\<open>A * s\<close> with a scalar \<open>s\<close>.\<close>

definition np_scale :: "mat \<Rightarrow> fl \<Rightarrow> mat" where
  "np_scale A s = map (map (\<lambda>a. fl_mul a s)) A"

text \<open>\<^verbatim>\<open>A.T\<close>\<close>

definition np_T :: "mat \<Rightarrow> mat" where
  "np_T A = map (\<lambda>j. map (\<lambda>row. row ! j) A) [0..<ncols A]"

definition dot :: "vec \<Rightarrow> vec \<Rightarrow> fl" where
  "dot u v = foldr fl_add (map2 fl_mul u v) (Fin 0)"

text \<open>
  \<^verbatim>\<open>A @ B\<close> for two-dimensional arrays, and for a two-dimensional and a one-dimensional
  one: the number of columns of \<open>A\<close> must be the length of \<open>B\<close>, else ValueError.
\<close>

definition matmul :: "mat \<Rightarrow> mat \<Rightarrow> py_exception + mat" where
  "matmul A B =
     (if rect A \<and> rect B \<and> ncols A = length B
      then Inr (map (\<lambda>row. map (\<lambda>col. dot row col) (np_T B)) A)
      else Inl matmul_error)"

definition matvec :: "mat \<Rightarrow> vec \<Rightarrow> py_exception + vec" where
  "matvec A v =
     (if rect A \<and> ncols A = length v
      then Inr (map (\<lambda>row. dot row v) A)
      else Inl matmul_error)"

text \<open>
  Elementwise \<^verbatim>\<open>+\<close> and \<^verbatim>\<open>-\<close> follow numpy's broadcasting rule: along each axis the two
  lengths must be equal, or one of them must be 1 (that operand is then repeated); any
  other pair of lengths raises ValueError.
\<close>

definition bcast_ok :: "nat \<Rightarrow> nat \<Rightarrow> bool" where
  "bcast_ok a b = (a = b \<or> a = 1 \<or> b = 1)"

definition bcast_dim :: "nat \<Rightarrow> nat \<Rightarrow> nat" where
  "bcast_dim a b = (if a = 1 then b else a)"

definition bcast_nth :: "'a list \<Rightarrow> nat \<Rightarrow> 'a" where
  "bcast_nth xs i = (if length xs = 1 then xs ! 0 else xs ! i)"

definition np_binop1 :: "(fl \<Rightarrow> fl \<Rightarrow> fl) \<Rightarrow> vec \<Rightarrow> vec \<Rightarrow> py_exception + vec" where
  "np_binop1 f u v =
     (if bcast_ok (length u) (length v)
      then Inr (map (\<lambda>i. f (bcast_nth u i) (bcast_nth v i)) [0..<bcast_dim (length u) (length v)])
      else Inl broadcast_error)"

definition np_binop2 :: "(fl \<Rightarrow> fl \<Rightarrow> fl) \<Rightarrow> mat \<Rightarrow> mat \<Rightarrow> py_exception + mat" where
  "np_binop2 f A B =
     (if rect A \<and> rect B \<and> bcast_ok (length A) (length B) \<and> bcast_ok (ncols A) (ncols B)
      then Inr (map (\<lambda>i. map (\<lambda>j. f (bcast_nth (bcast_nth A i) j) (bcast_nth (bcast_nth B i) j))
                               [0..<bcast_dim (ncols A) (ncols B)])
                    [0..<bcast_dim (length A) (length B)])
      else Inl broadcast_error)"

definition vec_add :: "vec \<Rightarrow> vec \<Rightarrow> py_exception + vec" where
  "vec_add = np_binop1 fl_add"

definition vec_sub :: "vec \<Rightarrow> vec \<Rightarrow> py_exception + vec" where
  "vec_sub = np_binop1 fl_sub"

definition mat_add :: "mat \<Rightarrow> mat \<Rightarrow> py_exception + mat" where
  "mat_add = np_binop2 fl_add"

definition mat_sub :: "mat \<Rightarrow> mat \<Rightarrow> py_exception + mat" where
  "mat_sub = np_binop2 fl_sub"

section \<open>Poses and the two library calls\<close>

text \<open>
  A pose is a \<open>4 \<times> 4\<close> homogeneous matrix (\<^verbatim>\<open>load_object_poses\<close> asserts the shape,
  line 36). The filter reads two slices of it only: the rotation block \<^verbatim>\<open>pose[:3, :3]\<close>
  and the translation column \<^verbatim>\<open>pose[:3, -1]\<close> (lines 64-66); the record keeps these two.
  A frame without a pose is \<open>None\<close>.

  Two calls leave the repository: \<^verbatim>\<open>Rotation.from_matrix(R).as_euler('XYZ')\<close> of scipy
  and \<^verbatim>\<open>np.linalg.pinv\<close> of numpy. They are parameters of the model, \<open>euler\<close> and \<open>pinv\<close>.
  The scipy call returns three angles or raises an exception of its own (a ValueError
  for a matrix that is no rotation, a LinAlgError for one that holds NaN), which the
  filter does not catch: \<open>euler\<close> returns the exception as it is. \<^verbatim>\<open>pinv\<close> returns an
  array or raises LinAlgError, for which \<open>None\<close> stands.
\<close>

record pose =
  rotation :: mat
  translation :: "fl \<times> fl \<times> fl"

type_synonym euler_fn = "mat \<Rightarrow> py_exception + (fl \<times> fl \<times> fl)"
type_synonym pinv_fn = "mat \<Rightarrow> mat option"

fun vec3 :: "fl \<times> fl \<times> fl \<Rightarrow> vec" where
  "vec3 (a, b, c) = [a, b, c]"

definition nan3 :: vec where
  "nan3 = [NaN, NaN, NaN]"

section \<open>Lines 59-71: positions and Euler angles\<close>

fun extract_channels :: "euler_fn \<Rightarrow> pose option list \<Rightarrow> py_exception + (mat \<times> mat)" where
  "extract_channels euler [] = Inr ([], [])"
| "extract_channels euler (None # ps) =
     ebind (extract_channels euler ps) (\<lambda>(positions, angles).
       Inr (nan3 # positions, nan3 # angles))"
| "extract_channels euler (Some T # ps) =
     (case euler (rotation T) of
        Inl exn \<Rightarrow> Inl exn
      | Inr e \<Rightarrow>
          ebind (extract_channels euler ps) (\<lambda>(positions, angles).
            Inr (vec3 (translation T) # positions, vec3 e # angles)))"

section \<open>Lines 73-81: adding \<open>\<plusminus>2\<pi>\<close>\<close>

text \<open>\<^verbatim>\<open>.reshape((-1, 3))\<close> of a flat array whose length is a multiple of 3.\<close>

fun rows3 :: "'a list \<Rightarrow> 'a list list" where
  "rows3 (a # b # c # rest) = [a, b, c] # rows3 rest"
| "rows3 _ = []"

text \<open>The body of the inner loop, lines 77-80, on the array \<open>a\<close> (\<^verbatim>\<open>not_nan_angles\<close>).\<close>

definition unwrap_cell :: "nat \<Rightarrow> nat \<Rightarrow> mat \<Rightarrow> mat" where
  "unwrap_cell i j a =
     (if fl_gt (fl_sub (a ! i ! j) (a ! (i - 1) ! j)) (Fin (1.8 * pi))
      then a[i := (a ! i)[j := fl_sub (a ! i ! j) (Fin (2 * pi))]]
      else if fl_lt (fl_sub (a ! i ! j) (a ! (i - 1) ! j)) (Fin (- 1.8 * pi))
      then a[i := (a ! i)[j := fl_add (a ! i ! j) (Fin (2 * pi))]]
      else a)"

text \<open>Lines 75-76: \<^verbatim>\<open>for i in range(1, len(a))\<close>, \<^verbatim>\<open>for j in range(len(a[0]))\<close>.\<close>

definition unwrap_loop :: "mat \<Rightarrow> mat" where
  "unwrap_loop a =
     fold (\<lambda>i a. fold (\<lambda>j a. unwrap_cell i j a) [0..<length (a ! 0)] a) [1..<length a] a"

text \<open>
  Line 81, \<^verbatim>\<open>angles[~np.isnan(angles)] = values\<close>: the entries that are not NaN are
  replaced, in row-major order, by the values.
\<close>

fun scatter :: "fl list \<Rightarrow> fl list \<Rightarrow> fl list" where
  "scatter [] vs = []"
| "scatter (a # as) vs =
     (if isnan a then a # scatter as vs
      else (case vs of [] \<Rightarrow> a # scatter as [] | v # vs' \<Rightarrow> v # scatter as vs'))"

definition unwrap_angles :: "mat \<Rightarrow> py_exception + mat" where
  "unwrap_angles angles =
     (let flat = filter (\<lambda>a. \<not> isnan a) (concat angles) in
      if length flat mod 3 = 0
      then Inr (rows3 (scatter (concat angles) (concat (unwrap_loop (rows3 flat)))))
      else Inl reshape_error)"

section \<open>Lines 87-90: removing NaN at the beginning and at the end\<close>

text \<open>
  Of an empty list of poses, \<^verbatim>\<open>np.array([])\<close> is one-dimensional and \<^verbatim>\<open>positions[:, 0]\<close>
  raises IndexError. \<^verbatim>\<open>np.min\<close> and \<^verbatim>\<open>np.max\<close> of an empty index array raise ValueError.
\<close>

definition np_slice :: "nat \<Rightarrow> nat \<Rightarrow> 'a list \<Rightarrow> 'a list" where
  "np_slice lo hi xs = take (hi - lo) (drop lo xs)"

definition trim :: "mat \<Rightarrow> mat \<Rightarrow> py_exception + (mat \<times> mat)" where
  "trim positions angles =
     (if positions = [] then Inl too_many_indices_error
      else
        (let not_nan_frames = filter (\<lambda>i. \<not> isnan (positions ! i ! 0)) [0..<length positions] in
         if not_nan_frames = [] then Inl empty_reduction_error
         else
           (let lo = Min (set not_nan_frames); hi = Max (set not_nan_frames) in
            Inr (np_slice lo (hi + 1) positions, np_slice lo (hi + 1) angles))))"

definition preprocess :: "euler_fn \<Rightarrow> pose option list \<Rightarrow> py_exception + (mat \<times> mat)" where
  "preprocess euler poses =
     ebind (extract_channels euler poses) (\<lambda>(positions, angles).
     ebind (unwrap_angles angles) (\<lambda>angles.
     trim positions angles))"

section \<open>Lines 99-126: the model matrices and the initial state\<close>

text \<open>
  Lines 100-103 and 106-109. The powers of \<open>dt\<close> are evaluated in the order of the
  source text, each occurrence on its own, and the first that overflows raises.
\<close>

definition F_mat :: "fl \<Rightarrow> py_exception + mat" where
  "F_mat dt =
     ebind (fl_pow dt 2) (\<lambda>d2.
     Inr (np_kron (np_eye 6)
       [[Fin 1, dt, fl_mul (Fin 0.5) d2],
        [Fin 0, Fin 1, dt],
        [Fin 0, Fin 0, Fin 1]]))"

definition Q_mat :: "fl \<Rightarrow> fl \<Rightarrow> py_exception + mat" where
  "Q_mat dt sq_sigma_a =
     ebind (fl_pow dt 4) (\<lambda>a4.
     ebind (fl_pow dt 3) (\<lambda>a3.
     ebind (fl_pow dt 2) (\<lambda>a2.
     ebind (fl_pow dt 3) (\<lambda>b3.
     ebind (fl_pow dt 2) (\<lambda>b2.
     ebind (fl_pow dt 2) (\<lambda>c2.
     Inr (np_scale (np_kron (np_eye 6)
       [[fl_div a4 (Fin 4), fl_div a3 (Fin 2), fl_div a2 (Fin 2)],
        [fl_div b3 (Fin 2), b2, dt],
        [fl_div c2 (Fin 2), dt, Fin 1]]) sq_sigma_a)))))))"

definition H_mat :: mat where
  "H_mat = fold (\<lambda>i H. H[i := (H ! i)[3 * i := Fin 1]]) [0..<6] (np_zeros2 6 18)"

definition R_mat :: "fl \<Rightarrow> mat" where
  "R_mat r = np_diag (replicate 6 r)"

text \<open>\<^verbatim>\<open>v[idx] = vals\<close> for an index list.\<close>

definition set_at :: "nat list \<Rightarrow> vec \<Rightarrow> vec \<Rightarrow> vec" where
  "set_at idx vals v = fold (\<lambda>(i, a) v. v[i := a]) (zip idx vals) v"

definition x0_init :: "mat \<Rightarrow> mat \<Rightarrow> vec" where
  "x0_init positions angles =
     set_at [9, 12, 15] (angles ! 0) (set_at [0, 3, 6] (positions ! 0) (np_zeros1 18))"

definition P0_init :: "fl \<Rightarrow> mat" where
  "P0_init P0 = np_kron (np_eye 6) (np_full 3 3 P0)"

section \<open>Lines 128-144: the recursion\<close>

record kf_state =
  x_tbl :: "vec table"
  P_tbl :: "mat table"
  K_list :: "mat option list"
  z_list :: "vec option list"

text \<open>Line 134: \<^verbatim>\<open>np.r_[positions[i], angles[i]]\<close>.\<close>

definition measurement :: "mat \<Rightarrow> mat \<Rightarrow> nat \<Rightarrow> vec" where
  "measurement positions angles i = positions ! i @ angles ! i"

definition call_pinv :: "pinv_fn \<Rightarrow> mat \<Rightarrow> py_exception + mat" where
  "call_pinv pinv S = (case pinv S of None \<Rightarrow> Inl pinv_error | Some Si \<Rightarrow> Inr Si)"

text \<open>Line 136: the argument of \<^verbatim>\<open>pinv\<close>, \<^verbatim>\<open>H @ P[i][i - 1] @ H.T + R\<close>, and the gain.\<close>

definition innovation_cov :: "mat \<Rightarrow> mat \<Rightarrow> mat \<Rightarrow> py_exception + mat" where
  "innovation_cov H R Ppred =
     ebind (matmul H Ppred) (\<lambda>HP.
     ebind (matmul HP (np_T H)) (\<lambda>HPHt.
     mat_add HPHt R))"

definition kalman_gain :: "pinv_fn \<Rightarrow> mat \<Rightarrow> mat \<Rightarrow> mat \<Rightarrow> py_exception + mat" where
  "kalman_gain pinv H R Ppred =
     ebind (matmul Ppred (np_T H)) (\<lambda>PHt.
     ebind (innovation_cov H R Ppred) (\<lambda>S.
     ebind (call_pinv pinv S) (\<lambda>Si.
     matmul PHt Si)))"

text \<open>Line 137.\<close>

definition update_state :: "mat \<Rightarrow> mat \<Rightarrow> vec \<Rightarrow> vec \<Rightarrow> py_exception + vec" where
  "update_state K H xpred z =
     ebind (matvec H xpred) (\<lambda>Hx.
     ebind (vec_sub z Hx) (\<lambda>y.
     ebind (matvec K y) (\<lambda>Ky.
     vec_add xpred Ky)))"

text \<open>Line 138, with its \<^verbatim>\<open>np.eye(9)\<close>.\<close>

definition update_cov :: "mat \<Rightarrow> mat \<Rightarrow> mat \<Rightarrow> mat \<Rightarrow> py_exception + mat" where
  "update_cov K H R Ppred =
     ebind (matmul K H) (\<lambda>KH.
     ebind (mat_sub (np_eye 9) KH) (\<lambda>IKH.
     ebind (matmul IKH Ppred) (\<lambda>A.
     ebind (matmul K H) (\<lambda>KH'.
     ebind (mat_sub (np_eye 9) KH') (\<lambda>IKH'.
     ebind (matmul A (np_T IKH')) (\<lambda>J.
     ebind (matmul K R) (\<lambda>KR.
     ebind (matmul KR (np_T K)) (\<lambda>KRKt.
     mat_add J KRKt))))))))"

text \<open>Lines 129 and 140; lines 130 and 141.\<close>

definition predict_state :: "mat \<Rightarrow> vec \<Rightarrow> py_exception + vec" where
  "predict_state F x = matvec F x"

definition predict_cov :: "mat \<Rightarrow> mat \<Rightarrow> mat \<Rightarrow> py_exception + mat" where
  "predict_cov F Q P =
     ebind (matmul F P) (\<lambda>FP.
     ebind (matmul FP (np_T F)) (\<lambda>FPFt.
     mat_add FPFt Q))"

text \<open>The body of the loop, lines 134-141, for the index \<open>i\<close>.\<close>

definition kalman_step ::
  "pinv_fn \<Rightarrow> mat \<Rightarrow> mat \<Rightarrow> mat \<Rightarrow> mat \<Rightarrow> mat \<Rightarrow> mat \<Rightarrow> nat \<Rightarrow> kf_state \<Rightarrow> py_exception + kf_state" where
  "kalman_step pinv F Q H R positions angles i st =
     (let z = measurement positions angles i;
          zs = (z_list st)[i := Some z] in
      ebind (ebind (tbl_get (P_tbl st) i (i - 1)) need) (\<lambda>Ppred.
      ebind (kalman_gain pinv H R Ppred) (\<lambda>K.
      let Ks = (K_list st)[i := Some K] in
      ebind (ebind (tbl_get (x_tbl st) i (i - 1)) need) (\<lambda>xpred.
      ebind (update_state K H xpred z) (\<lambda>xi.
      ebind (tbl_set (x_tbl st) i i xi) (\<lambda>xt.
      ebind (update_cov K H R Ppred) (\<lambda>Pi.
      ebind (tbl_set (P_tbl st) i i Pi) (\<lambda>Pt.
      ebind (ebind (tbl_get xt i i) need) (\<lambda>xii.
      ebind (predict_state F xii) (\<lambda>xnext.
      ebind (tbl_set xt (i + 1) i xnext) (\<lambda>xt'.
      ebind (ebind (tbl_get Pt i i) need) (\<lambda>Pii.
      ebind (predict_cov F Q Pii) (\<lambda>Pnext.
      ebind (tbl_set Pt (i + 1) i Pnext) (\<lambda>Pt'.
      Inr \<lparr> x_tbl = xt', P_tbl = Pt', K_list = Ks, z_list = zs \<rparr>))))))))))))))"

text \<open>Line 133: \<^verbatim>\<open>for i in range(1, n)\<close>.\<close>

fun kalman_loop ::
  "pinv_fn \<Rightarrow> mat \<Rightarrow> mat \<Rightarrow> mat \<Rightarrow> mat \<Rightarrow> mat \<Rightarrow> mat \<Rightarrow> nat list \<Rightarrow> kf_state \<Rightarrow> py_exception + kf_state" where
  "kalman_loop pinv F Q H R positions angles [] st = Inr st"
| "kalman_loop pinv F Q H R positions angles (i # is) st =
     ebind (kalman_step pinv F Q H R positions angles i st)
           (kalman_loop pinv F Q H R positions angles is)"

text \<open>
  Lines 92-144 on the trimmed channels. Building \<open>F\<close> and \<open>Q\<close> may raise OverflowError
  (lines 100 and 106). Line 144 calls \<^verbatim>\<open>np.zeros()\<close> without its
  required argument, a TypeError; there is no return statement after it.
\<close>

definition run_filter ::
  "pinv_fn \<Rightarrow> mat \<Rightarrow> mat \<Rightarrow> fl \<Rightarrow> fl \<Rightarrow> fl \<Rightarrow> fl \<Rightarrow> py_exception + unit" where
  "run_filter pinv positions angles dt P0 sq_sigma_a r =
     (let n = length positions;
          x = new_table n;
          P = new_table n;
          K = replicate n None;
          z = replicate n None in
      ebind (F_mat dt) (\<lambda>F.
      ebind (Q_mat dt sq_sigma_a) (\<lambda>Q.
      let H = H_mat;
          R = R_mat r in
      ebind (tbl_set x 0 0 (x0_init positions angles)) (\<lambda>x.
      ebind (tbl_set P 0 0 (P0_init P0)) (\<lambda>P.
      ebind (ebind (tbl_get x 0 0) need) (\<lambda>x00.
      ebind (predict_state F x00) (\<lambda>x10.
      ebind (tbl_set x 1 0 x10) (\<lambda>x.
      ebind (ebind (tbl_get P 0 0) need) (\<lambda>P00.
      ebind (predict_cov F Q P00) (\<lambda>P10.
      ebind (tbl_set P 1 0 P10) (\<lambda>P.
      ebind (kalman_loop pinv F Q H R positions angles [1..<n]
               \<lparr> x_tbl = x, P_tbl = P, K_list = K, z_list = z \<rparr>) (\<lambda>st.
      Inl zeros_error))))))))))))"

definition kalman_filter ::
  "euler_fn \<Rightarrow> pinv_fn \<Rightarrow> pose option list \<Rightarrow> fl \<Rightarrow> fl \<Rightarrow> fl \<Rightarrow> fl \<Rightarrow> py_exception + unit" where
  "kalman_filter euler pinv poses dt P0 sq_sigma_a r =
     ebind (preprocess euler poses) (\<lambda>(positions, angles).
       run_filter pinv positions angles dt P0 sq_sigma_a r)"

section \<open>Sequences of table writes\<close>

text \<open>
  To speak about the tables after several assignments: \<open>tbl_writes\<close> performs the
  assignments \<^verbatim>\<open>t[i][j] = v\<close> of a list in order, and \<open>last_write k ws c\<close> is the value
  most recently assigned to column \<open>k\<close> by the list \<open>ws\<close>, through whichever row, or \<open>c\<close>
  if the list assigns nothing to that column.
\<close>

fun tbl_writes :: "'a table \<Rightarrow> (nat \<times> nat \<times> 'a) list \<Rightarrow> py_exception + 'a table" where
  "tbl_writes t [] = Inr t"
| "tbl_writes t ((i, j, v) # ws) = ebind (tbl_set t i j v) (\<lambda>t'. tbl_writes t' ws)"

fun last_write :: "nat \<Rightarrow> (nat \<times> nat \<times> 'a) list \<Rightarrow> 'a option \<Rightarrow> 'a option" where
  "last_write k [] c = c"
| "last_write k ((i, j, v) # ws) c = last_write k ws (if j = k then Some v else c)"

text \<open>The shape of a table built by line 94: every row is the object at address 0.\<close>

definition one_row :: "nat \<Rightarrow> 'a table \<Rightarrow> bool" where
  "one_row n t = (rows t = replicate (n + 1) 0 \<and> length (store t 0) = n)"

section \<open>Inputs of the worked examples\<close>

text \<open>
  The worked examples use the identity pose only, and need the two library calls at
  concrete arguments. The Euler angles of the identity rotation are \<open>(0, 0, 0)\<close>. The
  pseudo-inverse of a diagonal array with finite entries is the diagonal array of the
  reciprocals of its non-zero entries; with a finite configuration the array that the
  first update passes to \<^verbatim>\<open>pinv\<close> is diagonal, because the predicted covariance is
  block-diagonal and \<open>H\<close> selects one entry of each block.
\<close>

definition identity_pose :: pose where
  "identity_pose = \<lparr> rotation = np_eye 3, translation = (Fin 0, Fin 0, Fin 0) \<rparr>"

definition euler_identity :: euler_fn where
  "euler_identity R = (if R = np_eye 3 then Inr (Fin 0, Fin 0, Fin 0) else Inl from_matrix_error)"

fun fl_recip :: "fl \<Rightarrow> fl" where
  "fl_recip (Fin a) = (if a = 0 then Fin 0 else Fin (1 / a))"
| "fl_recip NaN = NaN"

definition pinv_diagonal :: pinv_fn where
  "pinv_diagonal M = Some (map (map fl_recip) M)"

section \<open>The unwrapping, sample by sample\<close>

text \<open>
  What lines 77-80 assign to one sample \<open>cur\<close>, given the sample \<open>prev\<close> before it.
\<close>

definition adjust :: "fl \<Rightarrow> fl \<Rightarrow> fl" where
  "adjust cur prev =
     (if fl_gt (fl_sub cur prev) (Fin (1.8 * pi)) then fl_sub cur (Fin (2 * pi))
      else if fl_lt (fl_sub cur prev) (Fin (- 1.8 * pi)) then fl_add cur (Fin (2 * pi))
      else cur)"

text \<open>
  One angle dimension, as a recurrence over the present samples: each sample is adjusted
  against the already adjusted sample before it, and only that sample is changed.
  \<open>unwrap_rows\<close> is the same recurrence on whole rows.
\<close>

fun unwrap_column :: "fl \<Rightarrow> fl list \<Rightarrow> fl list" where
  "unwrap_column prev [] = []"
| "unwrap_column prev (c # cs) = adjust c prev # unwrap_column (adjust c prev) cs"

fun unwrap_rows :: "vec \<Rightarrow> mat \<Rightarrow> mat" where
  "unwrap_rows prev [] = []"
| "unwrap_rows prev (row # rest) =
     map2 adjust row prev # unwrap_rows (map2 adjust row prev) rest"

text \<open>
  The unwrapping as the specification words it, for comparison: when the difference to
  the sample before exceeds \<open>1.8\<pi>\<close>, \<open>2\<pi>\<close> is subtracted from the current sample and from
  all the samples after it; when it is below \<open>-1.8\<pi>\<close>, \<open>2\<pi>\<close> is added to all of them.
\<close>

function spec_unwrap_column :: "fl \<Rightarrow> fl list \<Rightarrow> fl list" where
  "spec_unwrap_column prev [] = []"
| "spec_unwrap_column prev (c # cs) =
     (if fl_gt (fl_sub c prev) (Fin (1.8 * pi))
      then fl_sub c (Fin (2 * pi)) #
           spec_unwrap_column (fl_sub c (Fin (2 * pi))) (map (\<lambda>x. fl_sub x (Fin (2 * pi))) cs)
      else if fl_lt (fl_sub c prev) (Fin (- 1.8 * pi))
      then fl_add c (Fin (2 * pi)) #
           spec_unwrap_column (fl_add c (Fin (2 * pi))) (map (\<lambda>x. fl_add x (Fin (2 * pi))) cs)
      else c # spec_unwrap_column c cs)"
  by pat_completeness auto
termination
  by (relation "measure (\<lambda>(prev, cs). length cs)") auto

text \<open>Column \<open>j\<close> of a two-dimensional array.\<close>

definition column :: "nat \<Rightarrow> mat \<Rightarrow> vec" where
  "column j M = map (\<lambda>row. row ! j) M"

text \<open>
  A row of the angle array is present when none of its entries is NaN. \<open>merge_rows\<close> puts
  the rows of \<open>B\<close>, in order, at the frames of \<open>A\<close> that are not the all-NaN row, and
  leaves the all-NaN rows where they are.
\<close>

definition present_row :: "vec \<Rightarrow> bool" where
  "present_row row = list_all (\<lambda>a. \<not> isnan a) row"

fun merge_rows :: "mat \<Rightarrow> mat \<Rightarrow> mat" where
  "merge_rows [] B = []"
| "merge_rows (row # rest) B =
     (if row = nan3 then row # merge_rows rest B
      else (case B of [] \<Rightarrow> row # merge_rows rest [] | b # B' \<Rightarrow> b # merge_rows rest B'))"

section \<open>The history tables are one shared row\<close>

lemma nth_cons_replicate: "b \<le> n \<Longrightarrow> (c # replicate n c) ! b = c"
  by (cases b) simp_all

lemma nth_cons_replicate_less: "b < Suc n \<Longrightarrow> (c # replicate n c) ! b = c"
  by (cases b) simp_all

lemma one_row_new: "one_row n (new_table n)"
  by (simp add: one_row_def new_table_def)

lemma one_row_get:
  "one_row n t \<Longrightarrow> b \<le> n \<Longrightarrow> k < n \<Longrightarrow> tbl_get t b k = Inr (store t 0 ! k)"
  by (simp add: one_row_def tbl_get_def nth_cons_replicate)

lemma one_row_set:
  "one_row n t \<Longrightarrow> a \<le> n \<Longrightarrow> k < n \<Longrightarrow>
   tbl_set t a k v = Inr (t\<lparr> store := (store t)(0 := (store t 0)[k := Some v]) \<rparr>)"
  by (simp add: one_row_def tbl_set_def nth_cons_replicate)

lemma one_row_set_inv:
  "one_row n t \<Longrightarrow> tbl_set t a k v = Inr t' \<Longrightarrow>
   one_row n t' \<and> store t' 0 = (store t 0)[k := Some v] \<and> k < n"
  by (auto simp add: one_row_def tbl_set_def Let_def nth_cons_replicate_less split: if_splits)

lemma tbl_writes_read:
  "one_row n t \<Longrightarrow> tbl_writes t ws = Inr t' \<Longrightarrow> b \<le> n \<Longrightarrow> k < n \<Longrightarrow>
   tbl_get t' b k = Inr (last_write k ws (store t 0 ! k))"
proof (induction ws arbitrary: t)
  case Nil
  then show ?case by (simp add: one_row_get)
next
  case (Cons w ws)
  obtain i j v where w: "w = (i, j, v)" by (cases w)
  from Cons.prems(2) obtain t1
    where s: "tbl_set t i j v = Inr t1" and r: "tbl_writes t1 ws = Inr t'"
    by (auto simp add: w ebind_def split: sum.splits)
  from one_row_set_inv[OF Cons.prems(1) s]
  have o: "one_row n t1" and st: "store t1 0 = (store t 0)[j := Some v]" and j: "j < n"
    by simp_all
  have "tbl_get t' b k = Inr (last_write k ws (store t1 0 ! k))"
    using Cons.IH[OF o r Cons.prems(3,4)] .
  then show ?case
    using Cons.prems(1,4) j by (cases "j = k") (auto simp add: w st one_row_def)
qed

text \<open>
  Claim C10. The table built by \<^verbatim>\<open>[[None] * n] * (n + 1)\<close> has \<open>n + 1\<close> rows, and any two
  of them are the same object (the same address). Hence after any sequence of
  assignments \<^verbatim>\<open>t[i][j] = v\<close>, reading column \<open>k\<close> through any row \<open>b\<close> gives the value
  most recently assigned to column \<open>k\<close>, through whichever row it was assigned (and
  \<open>None\<close> if nothing was). The tables \<open>x\<close> and \<open>P\<close> of the filter are both built this way.
\<close>

theorem C10_tables_share_one_row:
  "length (rows (new_table n :: 'a table)) = n + 1 \<and>
   (\<forall>a\<le>n. \<forall>b\<le>n. rows (new_table n :: 'a table) ! a = rows (new_table n :: 'a table) ! b) \<and>
   (\<forall>ws t b k. tbl_writes (new_table n :: 'a table) ws = Inr t \<and> b \<le> n \<and> k < n \<longrightarrow>
       tbl_get t b k = Inr (last_write k ws None))"
proof -
  have "tbl_get t b k = Inr (last_write k ws None)"
    if "tbl_writes (new_table n :: 'a table) ws = Inr t" "b \<le> n" "k < n" for ws t b k
    using tbl_writes_read[OF one_row_new that] that(3) by (simp add: new_table_def)
  then show ?thesis by (auto simp add: new_table_def nth_cons_replicate)
qed

theorem C10_tables_share_one_row_witness:
  "rows (new_table 2 :: nat table) ! 0 = rows (new_table 2 :: nat table) ! 2 \<and>
   (\<exists>t. tbl_writes (new_table 2 :: nat table) [(0, 0, 10), (1, 0, 20)] = Inr t \<and>
        tbl_get t 0 0 = Inr (Some 20) \<and> tbl_get t 2 0 = Inr (Some 20))"
proof -
  have "\<exists>t. tbl_writes (new_table 2 :: nat table) [(0, 0, 10), (1, 0, 20)] = Inr t"
    by (simp add: new_table_def tbl_set_def ebind_def)
  then obtain t where w: "tbl_writes (new_table 2 :: nat table) [(0, 0, 10), (1, 0, 20)] = Inr t" ..
  have every: "tbl_get t b k = Inr (last_write k ws None)"
    if "tbl_writes (new_table 2 :: nat table) ws = Inr t" "b \<le> 2" "k < 2" for ws t b k
    using C10_tables_share_one_row[of 2, where 'a = nat] that by blast
  have r: "tbl_get t b 0 = Inr (last_write 0 [(0, 0, 10), (1, 0, 20)] None)" if "b \<le> 2" for b
    using every[OF w that] by simp
  have "rows (new_table 2 :: nat table) ! 0 = rows (new_table 2 :: nat table) ! 2"
    using C10_tables_share_one_row[of 2, where 'a = nat] by simp
  moreover have "tbl_get t 0 0 = Inr (Some 20)" using r[of 0] by simp
  moreover have "tbl_get t 2 0 = Inr (Some 20)" using r[of 2] by simp
  ultimately show ?thesis using w by blast
qed

section \<open>Shapes of the arrays\<close>

lemma is_mat_rect: "is_mat r c M \<Longrightarrow> 0 < r \<Longrightarrow> rect M \<and> ncols M = c \<and> length M = r"
  by (cases M) (auto simp add: is_mat_def rect_def ncols_def list_all_iff)

lemma is_mat_row: "is_mat r c M \<Longrightarrow> i < r \<Longrightarrow> length (M ! i) = c"
  by (auto simp add: is_mat_def list_all_length)

lemma is_mat_zeros2: "is_mat r c (np_zeros2 r c)"
  by (simp add: is_mat_def np_zeros2_def list_all_iff)

lemma is_mat_full: "is_mat r c (np_full r c v)"
  by (simp add: is_mat_def np_full_def list_all_iff)

lemma is_mat_eye: "is_mat n n (np_eye n)"
  by (simp add: is_mat_def np_eye_def list_all_iff)

lemma is_mat_diag: "is_mat (length v) (length v) (np_diag v)"
  by (simp add: is_mat_def np_diag_def list_all_iff)

lemma is_mat_scale: "is_mat r c A \<Longrightarrow> is_mat r c (np_scale A s)"
  by (simp add: is_mat_def np_scale_def list_all_iff)

lemma length_concat_const:
  "(\<forall>x\<in>set xs. length (f x) = k) \<Longrightarrow> length (concat (map f xs)) = length xs * k"
  by (induction xs) simp_all

lemma is_mat_kron:
  assumes "is_mat r c A" "is_mat p q B"
  shows "is_mat (r * p) (c * q) (np_kron A B)"
proof -
  have "length (concat (map (\<lambda>arow. map (\<lambda>brow. concat (map (\<lambda>a. map (fl_mul a) brow) arow)) B) A))
          = length A * length B"
    by (rule length_concat_const) simp
  then have len: "length (np_kron A B) = r * p"
    using assms by (simp add: np_kron_def is_mat_def)
  have "length row = c * q" if "row \<in> set (np_kron A B)" for row
  proof -
    from that obtain arow brow
      where a: "arow \<in> set A" and b: "brow \<in> set B"
        and row: "row = concat (map (\<lambda>a. map (fl_mul a) brow) arow)"
      by (auto simp add: np_kron_def)
    have "length arow = c" "length brow = q"
      using a b assms by (auto simp add: is_mat_def list_all_iff)
    moreover have "length (concat (map (\<lambda>a. map (fl_mul a) brow) arow)) = length arow * length brow"
      by (rule length_concat_const) simp
    ultimately show ?thesis by (simp add: row)
  qed
  then show ?thesis using len by (simp add: is_mat_def list_all_iff)
qed

lemma is_mat_T: "is_mat r c A \<Longrightarrow> 0 < r \<Longrightarrow> is_mat c r (np_T A)"
  using is_mat_rect[of r c A] by (simp add: np_T_def is_mat_def list_all_iff)

lemma matmul_shape:
  assumes "is_mat r k A" "is_mat k c B" "0 < r" "0 < k"
  shows "\<exists>C. matmul A B = Inr C \<and> is_mat r c C"
proof -
  have A: "rect A" "ncols A = k" "length A = r" using is_mat_rect[OF assms(1,3)] by simp_all
  have B: "rect B" "ncols B = c" "length B = k" using is_mat_rect[OF assms(2,4)] by simp_all
  show ?thesis
    by (simp add: matmul_def A B is_mat_def list_all_iff np_T_def)
qed

lemma matvec_shape:
  assumes "is_mat r k A" "length v = k" "0 < r"
  shows "\<exists>w. matvec A v = Inr w \<and> length w = r"
  using is_mat_rect[OF assms(1,3)] assms(2) by (simp add: matvec_def)

lemma binop2_shape:
  assumes "is_mat r c A" "is_mat r c B" "0 < r"
  shows "\<exists>C. np_binop2 f A B = Inr C \<and> is_mat r c C"
  using is_mat_rect[OF assms(1,3)] is_mat_rect[OF assms(2,3)]
  by (simp add: np_binop2_def bcast_ok_def bcast_dim_def is_mat_def list_all_iff)

lemma mat_add_shape:
  "is_mat r c A \<Longrightarrow> is_mat r c B \<Longrightarrow> 0 < r \<Longrightarrow> \<exists>C. mat_add A B = Inr C \<and> is_mat r c C"
  unfolding mat_add_def by (rule binop2_shape)

lemma binop1_shape:
  "length u = k \<Longrightarrow> length v = k \<Longrightarrow> \<exists>w. np_binop1 f u v = Inr w \<and> length w = k"
  by (simp add: np_binop1_def bcast_ok_def bcast_dim_def)

text \<open>The subtraction of line 138: a \<open>9 \<times> 9\<close> array minus an \<open>18 \<times> 18\<close> array.\<close>

lemma eye9_minus_18: "is_mat 18 18 M \<Longrightarrow> mat_sub (np_eye 9) M = Inl broadcast_error"
  using is_mat_rect[of 18 18 M] is_mat_rect[OF is_mat_eye[of 9]]
  by (simp add: mat_sub_def np_binop2_def bcast_ok_def)

lemma is_mat_H: "is_mat 6 18 H_mat"
  by (simp add: H_mat_def np_zeros2_def is_mat_def eval_nat_numeral)

lemma is_mat_R: "is_mat 6 6 (R_mat r)"
  using is_mat_diag[of "replicate 6 r"] by (simp add: R_mat_def)

lemma fl_pow_cases:
  "fl_pow dt k = (if pow_overflows dt k then Inl overflow_error
                  else Inr (case dt of NaN \<Rightarrow> NaN | Fin a \<Rightarrow> Fin (a ^ k)))"
  by (cases dt) (simp_all add: pow_overflows_def)

lemma F_mat_cases:
  "(pow_overflows dt 2 \<longrightarrow> F_mat dt = Inl overflow_error) \<and>
   (\<not> pow_overflows dt 2 \<longrightarrow> (\<exists>F. F_mat dt = Inr F \<and> is_mat 18 18 F))"
proof -
  have "is_mat 18 18 (np_kron (np_eye 6)
      [[Fin 1, dt, fl_mul (Fin 0.5) d2], [Fin 0, Fin 1, dt], [Fin 0, Fin 0, Fin 1]])" for d2
  proof -
    have "is_mat 3 3 [[Fin 1, dt, fl_mul (Fin 0.5) d2], [Fin 0, Fin 1, dt], [Fin 0, Fin 0, Fin 1]]"
      by (simp add: is_mat_def)
    from is_mat_kron[OF is_mat_eye[of 6] this] show ?thesis by simp
  qed
  then show ?thesis by (simp add: F_mat_def fl_pow_cases ebind_def)
qed

lemma Q_mat_cases:
  "(pow_overflows dt 4 \<or> pow_overflows dt 3 \<or> pow_overflows dt 2 \<longrightarrow>
      Q_mat dt s = Inl overflow_error) \<and>
   (\<not> (pow_overflows dt 4 \<or> pow_overflows dt 3 \<or> pow_overflows dt 2) \<longrightarrow>
      (\<exists>Q. Q_mat dt s = Inr Q \<and> is_mat 18 18 Q))"
proof -
  have "is_mat 18 18 (np_scale (np_kron (np_eye 6)
      [[fl_div a4 (Fin 4), fl_div a3 (Fin 2), fl_div a2 (Fin 2)],
       [fl_div b3 (Fin 2), b2, dt],
       [fl_div c2 (Fin 2), dt, Fin 1]]) s)" for a4 a3 a2 b3 b2 c2
  proof -
    have "is_mat 3 3
       [[fl_div a4 (Fin 4), fl_div a3 (Fin 2), fl_div a2 (Fin 2)],
        [fl_div b3 (Fin 2), b2, dt],
        [fl_div c2 (Fin 2), dt, Fin 1]]"
      by (simp add: is_mat_def)
    from is_mat_scale[OF is_mat_kron[OF is_mat_eye[of 6] this]] show ?thesis by simp
  qed
  then show ?thesis by (simp add: Q_mat_def fl_pow_cases ebind_def)
qed

lemma is_mat_F: "F_mat dt = Inr F \<Longrightarrow> is_mat 18 18 F"
  using F_mat_cases[of dt] by (cases "pow_overflows dt 2") auto

lemma is_mat_Q: "Q_mat dt s = Inr Q \<Longrightarrow> is_mat 18 18 Q"
  using Q_mat_cases[of dt s]
  by (cases "pow_overflows dt 4 \<or> pow_overflows dt 3 \<or> pow_overflows dt 2") auto

text \<open>Lines 100-109 raise exactly when one of the powers of \<open>dt\<close> overflows.\<close>

lemma config_matrices:
  "(config_overflows dt \<longrightarrow>
      F_mat dt = Inl overflow_error \<or>
      (\<exists>F. F_mat dt = Inr F \<and> Q_mat dt s = Inl overflow_error)) \<and>
   (\<not> config_overflows dt \<longrightarrow>
      (\<exists>F Q. F_mat dt = Inr F \<and> Q_mat dt s = Inr Q \<and> is_mat 18 18 F \<and> is_mat 18 18 Q))"
proof (cases "pow_overflows dt 2")
  case True
  then show ?thesis using F_mat_cases[of dt] by (simp add: config_overflows_def)
next
  case False
  then obtain F where F: "F_mat dt = Inr F" "is_mat 18 18 F" using F_mat_cases[of dt] by auto
  show ?thesis
  proof (cases "pow_overflows dt 4 \<or> pow_overflows dt 3")
    case True
    then have "Q_mat dt s = Inl overflow_error" using Q_mat_cases[of dt s] by blast
    then show ?thesis using True by (auto simp add: config_overflows_def F)
  next
    case nq: False
    then obtain Q where "Q_mat dt s = Inr Q" "is_mat 18 18 Q"
      using Q_mat_cases[of dt s] False by auto
    then show ?thesis using False nq F by (auto simp add: config_overflows_def)
  qed
qed

lemma is_mat_P0: "is_mat 18 18 (P0_init P0)"
  using is_mat_kron[OF is_mat_eye[of 6] is_mat_full[of 3 3 P0]] by (simp add: P0_init_def)

lemma length_set_at: "length (set_at idx vals v) = length v"
proof -
  have "length (fold (\<lambda>(i, a) v. v[i := a]) ps v) = length v" for ps
    by (induction ps arbitrary: v) (auto split: prod.splits)
  then show ?thesis by (simp add: set_at_def)
qed

lemma length_x0: "length (x0_init positions angles) = 18"
  by (simp add: x0_init_def length_set_at np_zeros1_def)

section \<open>The recursion never gets past its first update\<close>

lemma ebind_Inr [simp]: "ebind (Inr v) f = f v"
  by (simp add: ebind_def)

lemma ebind_Inl [simp]: "ebind (Inl e) f = Inl e"
  by (simp add: ebind_def)

lemma need_Some [simp]: "need (Some v) = Inr v"
  by (simp add: need_def)

lemma one_row_upd:
  "one_row n t \<Longrightarrow> one_row n (t\<lparr> store := (store t)(0 := (store t 0)[k := Some v]) \<rparr>)"
  by (simp add: one_row_def)

lemma predict_state_shape:
  "is_mat 18 18 F \<Longrightarrow> length x = 18 \<Longrightarrow> \<exists>x'. predict_state F x = Inr x' \<and> length x' = 18"
  unfolding predict_state_def using matvec_shape[of 18 18 F x] by simp

lemma predict_cov_shape:
  assumes F: "is_mat 18 18 F" and Q: "is_mat 18 18 Q" and "is_mat 18 18 P"
  shows "\<exists>P'. predict_cov F Q P = Inr P' \<and> is_mat 18 18 P'"
proof -
  obtain FP where 1: "matmul F P = Inr FP" "is_mat 18 18 FP"
    using matmul_shape[OF F assms(3)] by auto
  have "is_mat 18 18 (np_T F)" using is_mat_T[OF F] by simp
  then obtain FPFt where 2: "matmul FP (np_T F) = Inr FPFt" "is_mat 18 18 FPFt"
    using matmul_shape[OF 1(2)] by auto
  obtain P' where 3: "mat_add FPFt Q = Inr P'" "is_mat 18 18 P'"
    using mat_add_shape[OF 2(2) Q] by auto
  show ?thesis by (simp add: predict_cov_def 1 2 3)
qed

text \<open>Lines 92-130: what the loop starts from.\<close>

lemma run_filter_prefix:
  assumes "0 < length positions" and Fm: "F_mat dt = Inr F" and Qm: "Q_mat dt s = Inr Q"
  shows "\<exists>st0 x10 P10.
     run_filter pinv positions angles dt P0 s r =
       ebind (kalman_loop pinv F Q H_mat (R_mat r) positions angles
                [1..<length positions] st0) (\<lambda>st. Inl zeros_error) \<and>
     one_row (length positions) (x_tbl st0) \<and> one_row (length positions) (P_tbl st0) \<and>
     store (x_tbl st0) 0 ! 0 = Some x10 \<and> length x10 = 18 \<and>
     store (P_tbl st0) 0 ! 0 = Some P10 \<and> is_mat 18 18 P10 \<and>
     predict_cov F Q (P0_init P0) = Inr P10"
proof -
  define n where "n = length positions"
  have n: "0 < n" using assms by (simp add: n_def)
  define x0 where "x0 = x0_init positions angles"
  obtain x10 where x10: "predict_state F x0 = Inr x10" "length x10 = 18"
    using predict_state_shape[OF is_mat_F[OF Fm], of x0] by (auto simp add: x0_def length_x0)
  obtain P10 where P10: "predict_cov F Q (P0_init P0) = Inr P10" "is_mat 18 18 P10"
    using predict_cov_shape[OF is_mat_F[OF Fm] is_mat_Q[OF Qm] is_mat_P0] by blast
  define xa :: "vec table" where
    "xa = (new_table n)\<lparr> store := (store (new_table n))(0 := (store (new_table n) 0)[0 := Some x0]) \<rparr>"
  define xb where "xb = xa\<lparr> store := (store xa)(0 := (store xa 0)[0 := Some x10]) \<rparr>"
  define Pa :: "mat table" where
    "Pa = (new_table n)\<lparr> store := (store (new_table n))(0 := (store (new_table n) 0)[0 := Some (P0_init P0)]) \<rparr>"
  define Pb where "Pb = Pa\<lparr> store := (store Pa)(0 := (store Pa 0)[0 := Some P10]) \<rparr>"
  have oxa: "one_row n xa" unfolding xa_def by (rule one_row_upd[OF one_row_new])
  have oxb: "one_row n xb" unfolding xb_def by (rule one_row_upd[OF oxa])
  have oPa: "one_row n Pa" unfolding Pa_def by (rule one_row_upd[OF one_row_new])
  have oPb: "one_row n Pb" unfolding Pb_def by (rule one_row_upd[OF oPa])
  have s1: "tbl_set (new_table n) 0 0 x0 = Inr xa"
    using one_row_set[OF one_row_new, of 0 n 0 x0] n by (simp add: xa_def)
  have g1: "tbl_get xa 0 0 = Inr (Some x0)"
    using one_row_get[OF oxa, of 0 0] n by (simp add: xa_def new_table_def)
  have s2: "tbl_set xa (Suc 0) 0 x10 = Inr xb"
    using one_row_set[OF oxa, of "Suc 0" 0 x10] n by (simp add: xb_def)
  have s3: "tbl_set (new_table n) 0 0 (P0_init P0) = Inr Pa"
    using one_row_set[OF one_row_new, of 0 n 0 "P0_init P0"] n by (simp add: Pa_def)
  have g2: "tbl_get Pa 0 0 = Inr (Some (P0_init P0))"
    using one_row_get[OF oPa, of 0 0] n by (simp add: Pa_def new_table_def)
  have s4: "tbl_set Pa (Suc 0) 0 P10 = Inr Pb"
    using one_row_set[OF oPa, of "Suc 0" 0 P10] n by (simp add: Pb_def)
  have run: "run_filter pinv positions angles dt P0 s r =
       ebind (kalman_loop pinv F Q H_mat (R_mat r) positions angles [1..<n]
                \<lparr> x_tbl = xb, P_tbl = Pb, K_list = replicate n None, z_list = replicate n None \<rparr>)
             (\<lambda>st. Inl zeros_error)"
    unfolding run_filter_def Let_def n_def[symmetric] x0_def[symmetric]
    by (simp add: Fm Qm s1 s3 g1 x10 s2 g2 P10 s4)
  have "store xb 0 ! 0 = Some x10" using oxa n by (simp add: xb_def one_row_def)
  moreover have "store Pb 0 ! 0 = Some P10" using oPa n by (simp add: Pb_def one_row_def)
  ultimately show ?thesis
    using run oxb oPb x10(2) P10 unfolding n_def by force
qed

lemma run_filter_one_frame:
  assumes "length positions = 1" and Fm: "F_mat dt = Inr F" and Qm: "Q_mat dt s = Inr Q"
  shows "run_filter pinv positions angles dt P0 s r = Inl zeros_error"
proof -
  obtain st0 where "run_filter pinv positions angles dt P0 s r =
       ebind (kalman_loop pinv F Q H_mat (R_mat r) positions angles
                [1..<length positions] st0) (\<lambda>st. Inl zeros_error)"
    using run_filter_prefix[OF _ Fm Qm, of positions pinv angles P0 r] assms(1) by auto
  then show ?thesis by (simp add: assms)
qed

lemma run_filter_overflow:
  assumes "config_overflows dt"
  shows "run_filter pinv positions angles dt P0 s r = Inl overflow_error"
proof -
  from config_matrices[of dt s] assms
  have "F_mat dt = Inl overflow_error \<or>
      (\<exists>F. F_mat dt = Inr F \<and> Q_mat dt s = Inl overflow_error)"
    by blast
  then show ?thesis
  proof
    assume "F_mat dt = Inl overflow_error"
    then show ?thesis by (simp add: run_filter_def Let_def)
  next
    assume "\<exists>F. F_mat dt = Inr F \<and> Q_mat dt s = Inl overflow_error"
    then obtain F where "F_mat dt = Inr F" "Q_mat dt s = Inl overflow_error" by blast
    then show ?thesis by (simp add: run_filter_def Let_def)
  qed
qed

lemma innovation_cov_shape:
  assumes "is_mat 18 18 Ppred"
  shows "\<exists>S. innovation_cov H_mat (R_mat r) Ppred = Inr S \<and> is_mat 6 6 S"
proof -
  obtain HP where 1: "matmul H_mat Ppred = Inr HP" "is_mat 6 18 HP"
    using matmul_shape[OF is_mat_H assms] by auto
  have Ht: "is_mat 18 6 (np_T H_mat)" using is_mat_T[OF is_mat_H] by simp
  obtain HPHt where 2: "matmul HP (np_T H_mat) = Inr HPHt" "is_mat 6 6 HPHt"
    using matmul_shape[OF 1(2) Ht] by auto
  obtain S where 3: "mat_add HPHt (R_mat r) = Inr S" "is_mat 6 6 S"
    using mat_add_shape[OF 2(2) is_mat_R] by auto
  show ?thesis by (simp add: innovation_cov_def 1 2 3)
qed

lemma update_cov_raises:
  assumes "is_mat 18 6 K"
  shows "update_cov K H_mat R Ppred = Inl broadcast_error"
proof -
  obtain KH where 1: "matmul K H_mat = Inr KH" "is_mat 18 18 KH"
    using matmul_shape[OF assms is_mat_H] by auto
  show ?thesis by (simp add: update_cov_def 1 eye9_minus_18)
qed

lemma update_state_shape:
  assumes "is_mat 18 6 K" "length xpred = 18" "length z = 6"
  shows "\<exists>xi. update_state K H_mat xpred z = Inr xi \<and> length xi = 18"
proof -
  obtain Hx where 1: "matvec H_mat xpred = Inr Hx" "length Hx = 6"
    using matvec_shape[OF is_mat_H assms(2)] by auto
  obtain y where 2: "vec_sub z Hx = Inr y" "length y = 6"
    using binop1_shape[OF assms(3) 1(2), of fl_sub] by (auto simp add: vec_sub_def)
  obtain Ky where 3: "matvec K y = Inr Ky" "length Ky = 18"
    using matvec_shape[OF assms(1) 2(2)] by auto
  obtain xi where 4: "vec_add xpred Ky = Inr xi" "length xi = 18"
    using binop1_shape[OF assms(2) 3(2), of fl_add] by (auto simp add: vec_add_def)
  show ?thesis by (simp add: update_state_def 1 2 3 4)
qed

text \<open>
  The gain of line 136 when \<^verbatim>\<open>pinv\<close> returns an array that is not \<open>6 \<times> 6\<close>: either the
  product with it fails, or the gain has rows of a length other than 6.
\<close>

lemma matmul_bad_pinv:
  assumes "is_mat 18 6 PHt" "\<not> is_mat 6 6 Si"
  shows "matmul PHt Si = Inl matmul_error \<or>
         (\<exists>K. matmul PHt Si = Inr K \<and> rect K \<and> ncols K \<noteq> 6 \<and> length K = 18)"
proof (cases "rect Si \<and> length Si = 6")
  case False
  then show ?thesis using is_mat_rect[OF assms(1)] by (auto simp add: matmul_def)
next
  case True
  then have c: "ncols Si \<noteq> 6" using assms(2) by (auto simp add: is_mat_def rect_def)
  have P: "rect PHt" "ncols PHt = 6" "length PHt = 18" using is_mat_rect[OF assms(1)] by simp_all
  define K where "K = map (\<lambda>row. map (\<lambda>col. dot row col) (np_T Si)) PHt"
  have m: "matmul PHt Si = Inr K" using True P by (simp add: matmul_def K_def)
  have "K \<noteq> []" using P(3) by (auto simp add: K_def)
  then have nc: "ncols K = ncols Si"
    by (cases PHt) (auto simp add: K_def ncols_def np_T_def)
  have "rect K" unfolding rect_def nc by (simp add: K_def list_all_iff np_T_def)
  then show ?thesis using m nc c P(3) by (simp add: K_def)
qed

lemma update_state_bad_gain:
  assumes "rect K" "ncols K \<noteq> 6" "length xpred = 18" "length z = 6"
  shows "update_state K H_mat xpred z = Inl matmul_error"
proof -
  obtain Hx where 1: "matvec H_mat xpred = Inr Hx" "length Hx = 6"
    using matvec_shape[OF is_mat_H assms(3)] by auto
  obtain y where 2: "vec_sub z Hx = Inr y" "length y = 6"
    using binop1_shape[OF assms(4) 1(2), of fl_sub] by (auto simp add: vec_sub_def)
  have 3: "matvec K y = Inl matmul_error" using assms(2) 2(2) by (simp add: matvec_def)
  show ?thesis by (simp add: update_state_def 1 2 3)
qed

text \<open>
  One pass through the loop body, lines 134-141, from tables that hold the predicted
  state and covariance in column \<open>i - 1\<close>: it always raises, and which exception depends
  only on what \<^verbatim>\<open>pinv\<close> does with the innovation covariance.
\<close>

lemma kalman_step_raises:
  assumes ox: "one_row n (x_tbl st)" and oP: "one_row n (P_tbl st)"
    and i: "0 < i" "i < n"
    and P: "store (P_tbl st) 0 ! (i - 1) = Some Ppred" "is_mat 18 18 Ppred"
    and x: "store (x_tbl st) 0 ! (i - 1) = Some xpred" "length xpred = 18"
    and z: "length (measurement positions angles i) = 6"
  shows "\<exists>S. innovation_cov H_mat (R_mat r) Ppred = Inr S \<and> is_mat 6 6 S \<and>
     kalman_step pinv F Q H_mat (R_mat r) positions angles i st =
       Inl (case pinv S of None \<Rightarrow> pinv_error
            | Some Si \<Rightarrow> if is_mat 6 6 Si then broadcast_error else matmul_error)"
proof -
  obtain S where S: "innovation_cov H_mat (R_mat r) Ppred = Inr S" "is_mat 6 6 S"
    using innovation_cov_shape[OF P(2)] by auto
  have Ht: "is_mat 18 6 (np_T H_mat)" using is_mat_T[OF is_mat_H] by simp
  obtain PHt where PHt: "matmul Ppred (np_T H_mat) = Inr PHt" "is_mat 18 6 PHt"
    using matmul_shape[OF P(2) Ht] by auto
  have gP: "tbl_get (P_tbl st) i (i - Suc 0) = Inr (Some Ppred)"
    using one_row_get[OF oP, of i "i - 1"] i P(1) by simp
  have gx: "tbl_get (x_tbl st) i (i - Suc 0) = Inr (Some xpred)"
    using one_row_get[OF ox, of i "i - 1"] i x(1) by simp
  have step: "kalman_step pinv F Q H_mat (R_mat r) positions angles i st =
       Inl (case pinv S of None \<Rightarrow> pinv_error
            | Some Si \<Rightarrow> if is_mat 6 6 Si then broadcast_error else matmul_error)"
  proof (cases "pinv S")
    case None
    then have "kalman_gain pinv H_mat (R_mat r) Ppred = Inl pinv_error"
      by (simp add: kalman_gain_def PHt S call_pinv_def)
    then show ?thesis by (simp add: kalman_step_def Let_def gP None)
  next
    case (Some Si)
    show ?thesis
    proof (cases "is_mat 6 6 Si")
      case True
      obtain K where K: "matmul PHt Si = Inr K" "is_mat 18 6 K"
        using matmul_shape[OF PHt(2) True] by auto
      have g: "kalman_gain pinv H_mat (R_mat r) Ppred = Inr K"
        by (simp add: kalman_gain_def PHt S call_pinv_def Some K)
      obtain xi where xi: "update_state K H_mat xpred (measurement positions angles i) = Inr xi"
        using update_state_shape[OF K(2) x(2) z] by auto
      have s: "tbl_set (x_tbl st) i i xi =
          Inr ((x_tbl st)\<lparr> store := (store (x_tbl st))(0 := (store (x_tbl st) 0)[i := Some xi]) \<rparr>)"
        using one_row_set[OF ox, of i i xi] i by simp
      show ?thesis
        by (simp add: kalman_step_def Let_def gP g gx xi s update_cov_raises[OF K(2)] Some True)
    next
      case False
      from matmul_bad_pinv[OF PHt(2) False] show ?thesis
      proof
        assume "matmul PHt Si = Inl matmul_error"
        then have "kalman_gain pinv H_mat (R_mat r) Ppred = Inl matmul_error"
          by (simp add: kalman_gain_def PHt S call_pinv_def Some)
        then show ?thesis by (simp add: kalman_step_def Let_def gP Some False)
      next
        assume "\<exists>K. matmul PHt Si = Inr K \<and> rect K \<and> ncols K \<noteq> 6 \<and> length K = 18"
        then obtain K where K: "matmul PHt Si = Inr K" "rect K" "ncols K \<noteq> 6" by auto
        have g: "kalman_gain pinv H_mat (R_mat r) Ppred = Inr K"
          by (simp add: kalman_gain_def PHt S call_pinv_def Some K)
        show ?thesis
          by (simp add: kalman_step_def Let_def gP g gx update_state_bad_gain[OF K(2,3) x(2) z] Some False)
      qed
    qed
  qed
  show ?thesis using S step by blast
qed

section \<open>What the preprocessing hands to the filter\<close>

lemma is_mat_Cons: "is_mat (Suc m) c (row # M) \<longleftrightarrow> length row = c \<and> is_mat m c M"
  by (auto simp add: is_mat_def)

lemma extract_channels_shape:
  "extract_channels euler poses = Inr (ps, an) \<Longrightarrow>
   is_mat (length poses) 3 ps \<and> is_mat (length poses) 3 an"
proof (induction euler poses arbitrary: ps an rule: extract_channels.induct)
  case (1 euler)
  then show ?case by (simp add: is_mat_def)
next
  case (2 euler poses)
  then show ?case
    by (cases "extract_channels euler poses") (auto simp add: is_mat_Cons nan3_def)
next
  case (3 euler T poses)
  from "3.prems" obtain e where e: "euler (rotation T) = Inr e"
    by (cases "euler (rotation T)") auto
  obtain a b c where abc: "e = (a, b, c)" by (cases e) auto
  obtain t1 t2 t3 where t: "translation T = (t1, t2, t3)" by (cases "translation T") auto
  from "3.prems" "3.IH"[OF e] show ?case
    by (cases "extract_channels euler poses") (auto simp add: e abc t is_mat_Cons)
qed

lemma length_scatter [simp]: "length (scatter xs vs) = length xs"
  by (induction xs vs rule: scatter.induct) (auto split: list.splits)

lemma is_mat_rows3: "length xs = 3 * m \<Longrightarrow> is_mat m 3 (rows3 xs)"
proof (induction xs arbitrary: m rule: rows3.induct)
  case (1 a b c rest)
  then obtain m' where m: "m = Suc m'" by (cases m) auto
  with 1 show ?case by (simp add: is_mat_Cons)
qed (auto simp add: is_mat_def)

lemma length_concat_is_mat: "is_mat m c M \<Longrightarrow> length (concat M) = m * c"
  by (induction M arbitrary: m) (auto simp add: is_mat_def)

lemma unwrap_angles_shape:
  assumes "unwrap_angles an = Inr an'" "is_mat m 3 an"
  shows "is_mat m 3 an'"
proof -
  have "length (concat an) = 3 * m" using length_concat_is_mat[OF assms(2)] by simp
  then show ?thesis
    using assms(1) by (auto simp add: unwrap_angles_def Let_def is_mat_rows3 split: if_splits)
qed

lemma is_mat_slice:
  assumes "is_mat m c M" "lo \<le> hi" "hi < m"
  shows "is_mat (hi + 1 - lo) c (np_slice lo (hi + 1) M)"
proof -
  have "set (take (hi + 1 - lo) (drop lo M)) \<subseteq> set M"
    by (meson set_take_subset set_drop_subset subset_trans)
  then show ?thesis
    using assms by (auto simp add: is_mat_def np_slice_def list_all_iff)
qed

lemma trim_shape:
  assumes "trim ps an = Inr (ps', an')" "is_mat m 3 ps" "is_mat m 3 an"
  shows "\<exists>n. 0 < n \<and> is_mat n 3 ps' \<and> is_mat n 3 an'"
proof -
  define nnf where "nnf = filter (\<lambda>i. \<not> isnan (ps ! i ! 0)) [0..<length ps]"
  from assms(1) have ne: "nnf \<noteq> []" and
    r: "ps' = np_slice (Min (set nnf)) (Max (set nnf) + 1) ps"
       "an' = np_slice (Min (set nnf)) (Max (set nnf) + 1) an"
    by (auto simp add: trim_def Let_def nnf_def split: if_splits)
  have "Max (set nnf) \<in> set nnf" using ne by (intro Max_in) auto
  then have hi: "Max (set nnf) < m" using assms(2) by (auto simp add: nnf_def is_mat_def)
  have lo: "Min (set nnf) \<le> Max (set nnf)" using ne by (simp add: Min_le_iff)
  have "Min (set nnf) \<le> Max (set nnf)" by (rule lo)
  show ?thesis
    using is_mat_slice[OF assms(2) lo hi] is_mat_slice[OF assms(3) lo hi] lo unfolding r
    by (intro exI[of _ "Max (set nnf) + 1 - Min (set nnf)"]) auto
qed

lemma preprocess_shape:
  assumes "preprocess euler poses = Inr (ps, an)"
  shows "\<exists>n. 0 < n \<and> is_mat n 3 ps \<and> is_mat n 3 an"
proof -
  from assms obtain ps0 an0 an1 where
    e: "extract_channels euler poses = Inr (ps0, an0)" and
    u: "unwrap_angles an0 = Inr an1" and
    t: "trim ps0 an1 = Inr (ps, an)"
    by (auto simp add: preprocess_def ebind_def split: sum.splits prod.splits)
  from extract_channels_shape[OF e] unwrap_angles_shape[OF u] trim_shape[OF t]
  show ?thesis by blast
qed

lemma length_measurement:
  "is_mat n 3 ps \<Longrightarrow> is_mat n 3 an \<Longrightarrow> i < n \<Longrightarrow> length (measurement ps an i) = 6"
  by (simp add: measurement_def is_mat_row)

lemma run_filter_two_frames:
  assumes ps: "is_mat n 3 positions" and an: "is_mat n 3 angles" and n: "2 \<le> n"
    and Fm: "F_mat dt = Inr F" and Qm: "Q_mat dt s = Inr Q"
  shows "\<exists>P10 S. predict_cov F Q (P0_init P0) = Inr P10 \<and>
     innovation_cov H_mat (R_mat r) P10 = Inr S \<and> is_mat 6 6 S \<and>
     run_filter pinv positions angles dt P0 s r =
       Inl (case pinv S of None \<Rightarrow> pinv_error
            | Some Si \<Rightarrow> if is_mat 6 6 Si then broadcast_error else matmul_error)"
proof -
  have len: "length positions = n" using ps by (simp add: is_mat_def)
  then have pos: "0 < length positions" using n by simp
  from run_filter_prefix[OF pos Fm Qm, of pinv angles P0 r]
  obtain st0 x10 P10 where
    run: "run_filter pinv positions angles dt P0 s r =
       ebind (kalman_loop pinv F Q H_mat (R_mat r) positions angles
                [1..<n] st0) (\<lambda>st. Inl zeros_error)" and
    ox: "one_row n (x_tbl st0)" and oP: "one_row n (P_tbl st0)" and
    x: "store (x_tbl st0) 0 ! 0 = Some x10" "length x10 = 18" and
    P: "store (P_tbl st0) 0 ! 0 = Some P10" "is_mat 18 18 P10" and
    pc: "predict_cov F Q (P0_init P0) = Inr P10"
    unfolding len by blast
  have z: "length (measurement positions angles (Suc 0)) = 6"
    using length_measurement[OF ps an, of "Suc 0"] n by simp
  from kalman_step_raises[OF ox oP _ _ _ P(2) _ x(2) z, of r pinv F Q]
  obtain S where S: "innovation_cov H_mat (R_mat r) P10 = Inr S" "is_mat 6 6 S" and
    step: "kalman_step pinv F Q H_mat (R_mat r) positions angles (Suc 0) st0 =
       Inl (case pinv S of None \<Rightarrow> pinv_error
            | Some Si \<Rightarrow> if is_mat 6 6 Si then broadcast_error else matmul_error)"
    using n x(1) P(1) by auto
  have "[1..<n] = 1 # [Suc 1..<n]" using n by (intro upt_conv_Cons) simp
  then have "run_filter pinv positions angles dt P0 s r =
       Inl (case pinv S of None \<Rightarrow> pinv_error
            | Some Si \<Rightarrow> if is_mat 6 6 Si then broadcast_error else matmul_error)"
    by (simp add: run step)
  then show ?thesis using pc S by blast
qed

lemma kalman_filter_preprocess:
  "preprocess euler poses = Inr (ps, an) \<Longrightarrow>
   kalman_filter euler pinv poses dt P0 s r = run_filter pinv ps an dt P0 s r"
  by (simp add: kalman_filter_def)

lemma kalman_filter_preprocess_error:
  "preprocess euler poses = Inl e \<Longrightarrow> kalman_filter euler pinv poses dt P0 s r = Inl e"
  by (simp add: kalman_filter_def)

text \<open>
  The outcome of a call whose preprocessing succeeds: by the overflow of the powers of
  \<open>dt\<close>, and then by the length of the trimmed span.
\<close>

lemma kalman_filter_cases:
  assumes "preprocess euler poses = Inr (ps, an)"
  shows "0 < length ps \<and>
     (config_overflows dt \<longrightarrow> kalman_filter euler pinv poses dt P0 s r = Inl overflow_error) \<and>
     (\<not> config_overflows dt \<longrightarrow>
        (\<exists>F Q. F_mat dt = Inr F \<and> Q_mat dt s = Inr Q \<and>
          (length ps = 1 \<longrightarrow> kalman_filter euler pinv poses dt P0 s r = Inl zeros_error) \<and>
          (2 \<le> length ps \<longrightarrow>
             (\<exists>P10 S. predict_cov F Q (P0_init P0) = Inr P10 \<and>
                innovation_cov H_mat (R_mat r) P10 = Inr S \<and> is_mat 6 6 S \<and>
                kalman_filter euler pinv poses dt P0 s r =
                  Inl (case pinv S of None \<Rightarrow> pinv_error
                       | Some Si \<Rightarrow> if is_mat 6 6 Si then broadcast_error else matmul_error)))))"
proof -
  obtain n where n: "0 < n" "is_mat n 3 ps" "is_mat n 3 an"
    using preprocess_shape[OF assms] by blast
  then have len: "length ps = n" by (simp add: is_mat_def)
  note k = kalman_filter_preprocess[OF assms]
  show ?thesis
  proof (cases "config_overflows dt")
    case True
    then show ?thesis using n(1) by (simp add: k run_filter_overflow len)
  next
    case False
    then obtain F Q where FQ: "F_mat dt = Inr F" "Q_mat dt s = Inr Q"
      using config_matrices[of dt s] by blast
    have one: "length ps = 1 \<longrightarrow> kalman_filter euler pinv poses dt P0 s r = Inl zeros_error"
      using run_filter_one_frame[OF _ FQ, of ps pinv an P0 r] by (simp add: k)
    have two: "2 \<le> length ps \<longrightarrow>
             (\<exists>P10 S. predict_cov F Q (P0_init P0) = Inr P10 \<and>
                innovation_cov H_mat (R_mat r) P10 = Inr S \<and> is_mat 6 6 S \<and>
                kalman_filter euler pinv poses dt P0 s r =
                  Inl (case pinv S of None \<Rightarrow> pinv_error
                       | Some Si \<Rightarrow> if is_mat 6 6 Si then broadcast_error else matmul_error))"
      using run_filter_two_frames[OF n(2,3) _ FQ, of P0 r pinv] by (simp add: k len)
    show ?thesis using False n(1) FQ one two unfolding len by blast
  qed
qed


section \<open>C3: every call raises\<close>


section \<open>The worked examples\<close>

lemma upt_2: "[0..<2] = [0, Suc 0]"
  by (simp add: eval_nat_numeral)

lemma upt_3: "[0..<3] = [0, Suc 0, 2]"
  by (simp add: eval_nat_numeral)

lemma euler_identity_pose: "euler_identity (rotation identity_pose) = Inr (Fin 0, Fin 0, Fin 0)"
  by (simp add: euler_identity_def identity_pose_def)

lemma extract_identity:
  "extract_channels euler_identity (Some identity_pose # ps) =
     ebind (extract_channels euler_identity ps) (\<lambda>(positions, angles).
       Inr ([Fin 0, Fin 0, Fin 0] # positions, [Fin 0, Fin 0, Fin 0] # angles))"
  by (simp add: euler_identity_pose) (simp add: identity_pose_def)

lemma extract_missing:
  "extract_channels euler (None # ps) =
     ebind (extract_channels euler ps) (\<lambda>(positions, angles).
       Inr ([NaN, NaN, NaN] # positions, [NaN, NaN, NaN] # angles))"
  by (simp add: nan3_def)

lemmas extract_example = extract_identity extract_missing extract_channels.simps(1)

lemma unwrap_cell_zero:
  "a ! i ! j = Fin 0 \<Longrightarrow> a ! (i - 1) ! j = Fin 0 \<Longrightarrow> unwrap_cell i j a = a"
  by (simp add: unwrap_cell_def)

lemma preprocess_one_identity:
  "preprocess euler_identity [Some identity_pose] =
     Inr ([[Fin 0, Fin 0, Fin 0]], [[Fin 0, Fin 0, Fin 0]])"
proof -
  have "extract_channels euler_identity [Some identity_pose] =
      Inr ([[Fin 0, Fin 0, Fin 0]], [[Fin 0, Fin 0, Fin 0]])"
    by (simp only: extract_example) simp
  then show ?thesis
    by (simp add: preprocess_def unwrap_angles_def unwrap_loop_def trim_def np_slice_def)
qed

lemma preprocess_two_identity:
  "preprocess euler_identity [Some identity_pose, Some identity_pose] =
     Inr ([[Fin 0, Fin 0, Fin 0], [Fin 0, Fin 0, Fin 0]],
          [[Fin 0, Fin 0, Fin 0], [Fin 0, Fin 0, Fin 0]])"
proof -
  have "extract_channels euler_identity [Some identity_pose, Some identity_pose] =
      Inr ([[Fin 0, Fin 0, Fin 0], [Fin 0, Fin 0, Fin 0]],
           [[Fin 0, Fin 0, Fin 0], [Fin 0, Fin 0, Fin 0]])"
    by (simp only: extract_example) simp
  then show ?thesis
    by (simp add: preprocess_def unwrap_angles_def unwrap_loop_def trim_def np_slice_def
        upt_2 upt_3 unwrap_cell_zero)
qed

lemma float_max_ge_1: "1 \<le> float_max"
proof -
  have "(1::real) \<le> 2 - 1 / 2 ^ 52" by simp
  moreover have "(1::real) \<le> 2 ^ 1023" by (rule one_le_power) simp
  ultimately have "(1::real) * 1 \<le> (2 - 1 / 2 ^ 52) * 2 ^ 1023"
    by (intro mult_mono) simp_all
  then show ?thesis by (simp add: float_max_def)
qed

text \<open>No power of a \<open>dt\<close> between \<open>-1\<close> and \<open>1\<close> overflows, nor of NaN.\<close>

lemma no_overflow_small: "\<bar>a\<bar> \<le> 1 \<Longrightarrow> \<not> config_overflows (Fin a)"
proof -
  assume a: "\<bar>a\<bar> \<le> 1"
  have "\<bar>a ^ k\<bar> \<le> float_max" for k
  proof -
    have "\<bar>a ^ k\<bar> = \<bar>a\<bar> ^ k" by (simp add: power_abs)
    also have "\<dots> \<le> 1" using a by (intro power_le_one) simp_all
    finally show ?thesis using float_max_ge_1 by linarith
  qed
  from this[of 2] this[of 3] this[of 4] show ?thesis
    by (auto simp add: config_overflows_def pow_overflows_def)
qed



lemma pinv_diagonal_shape: "is_mat r c M \<Longrightarrow> \<exists>Mi. pinv_diagonal M = Some Mi \<and> is_mat r c Mi"
  by (simp add: pinv_diagonal_def is_mat_def list_all_iff)


section \<open>Tracks without any pose, and the exceptions of the preprocessing\<close>

lemma extract_all_missing:
  "\<forall>p\<in>set poses. p = None \<Longrightarrow>
   extract_channels euler poses = Inr (replicate (length poses) nan3, replicate (length poses) nan3)"
  by (induction poses) auto

lemma filter_concat_nan3: "filter (\<lambda>a. \<not> isnan a) (concat (replicate m nan3)) = []"
  by (induction m) (auto simp add: nan3_def)

lemma unwrap_all_missing: "\<exists>an. unwrap_angles (replicate m nan3) = Inr an"
  by (simp add: unwrap_angles_def filter_concat_nan3)

lemma trim_all_missing:
  "0 < m \<Longrightarrow> trim (replicate m nan3) an = Inl empty_reduction_error"
proof -
  assume m: "0 < m"
  have "filter (\<lambda>i. \<not> isnan (replicate m nan3 ! i ! 0)) [0..<m] = []"
    by (auto simp add: filter_empty_conv nan3_def)
  then show ?thesis using m by (simp add: trim_def)
qed

lemma preprocess_all_missing:
  assumes "poses \<noteq> []" "\<forall>p\<in>set poses. p = None"
  shows "preprocess euler poses = Inl empty_reduction_error"
proof -
  obtain an where an: "unwrap_angles (replicate (length poses) nan3) = Inr an"
    using unwrap_all_missing by blast
  show ?thesis
    using assms(1) by (simp add: preprocess_def extract_all_missing[OF assms(2)] an trim_all_missing)
qed

lemma preprocess_empty: "preprocess euler [] = Inl too_many_indices_error"
  by (simp add: preprocess_def unwrap_angles_def unwrap_loop_def trim_def)

text \<open>
  An exception of the extraction is one that the scipy call raised; the unwrapping and
  the trimming raise the exceptions of numpy named here.
\<close>

lemma extract_channels_errors:
  "extract_channels euler poses = Inl e \<Longrightarrow> \<exists>R. euler R = Inl e"
proof (induction euler poses rule: extract_channels.induct)
  case (1 euler)
  then show ?case by simp
next
  case (2 euler ps)
  then show ?case by (cases "extract_channels euler ps") (auto split: prod.splits)
next
  case (3 euler T ps)
  show ?case
  proof (cases "euler (rotation T)")
    case (Inl exn)
    then show ?thesis using "3.prems" by auto
  next
    case (Inr a)
    then show ?thesis using "3.prems" "3.IH"[OF Inr]
      by (cases "extract_channels euler ps") (auto split: prod.splits)
  qed
qed

lemma preprocess_errors:
  assumes "preprocess euler poses = Inl e"
  shows "(\<exists>R. euler R = Inl e) \<or>
         e \<in> {reshape_error, too_many_indices_error, empty_reduction_error}"
proof (cases "extract_channels euler poses")
  case (Inl e')
  then show ?thesis using assms extract_channels_errors[OF Inl] by (simp add: preprocess_def)
next
  case (Inr v)
  obtain ps an where v: "v = (ps, an)" by (cases v)
  show ?thesis
  proof (cases "unwrap_angles an")
    case (Inl e')
    then have "e' = reshape_error" by (auto simp add: unwrap_angles_def Let_def split: if_splits)
    then show ?thesis using assms Inr v Inl by (simp add: preprocess_def)
  next
    case (Inr an')
    then have "trim ps an' = Inl e"
      using assms \<open>extract_channels euler poses = Inr v\<close> v by (simp add: preprocess_def)
    then show ?thesis by (auto simp add: trim_def Let_def split: if_splits)
  qed
qed

section \<open>C5: a track in which no frame has a pose\<close>

text \<open>
  Claim C5, amended. The source defines no EmptyTrackError and makes no check of its own.
  For a track in which no frame has a pose, the call fails in the trimming step, never
  with a silent empty result, and for every configuration: when the track has at least
  one frame, with the ValueError that \<^verbatim>\<open>np.min\<close> raises on the empty array of the indices
  of present frames (line 89); when the track has no frame at all, with the IndexError
  of \<^verbatim>\<open>positions[:, 0]\<close> on a one-dimensional empty array (line 88).
\<close>

theorem C5_all_missing_track_raises_ValueError:
  "(poses \<noteq> [] \<and> (\<forall>p\<in>set poses. p = None) \<longrightarrow>
      kalman_filter euler pinv poses dt P0 s r = Inl empty_reduction_error \<and>
      raises ''ValueError'' (kalman_filter euler pinv poses dt P0 s r)) \<and>
   kalman_filter euler pinv [] dt P0 s r = Inl too_many_indices_error \<and>
   raises ''IndexError'' (kalman_filter euler pinv [] dt P0 s r)"
  by (auto simp add: kalman_filter_preprocess_error preprocess_all_missing preprocess_empty
      raises_def empty_reduction_error_def too_many_indices_error_def)

theorem C5_all_missing_track_raises_ValueError_witness:
  "kalman_filter euler_identity pinv_diagonal [None, None, None]
      (Fin (1 / 30)) (Fin 500) (Fin 100) (Fin 1) = Inl empty_reduction_error \<and>
   raises ''ValueError'' (kalman_filter euler_identity pinv_diagonal [None, None, None]
      (Fin (1 / 30)) (Fin 500) (Fin 100) (Fin 1))"
  using C5_all_missing_track_raises_ValueError[of "[None, None, None]" euler_identity
      pinv_diagonal "Fin (1 / 30)" "Fin 500" "Fin 100" "Fin 1"]
  by (simp add: raises_def empty_reduction_error_def)

text \<open>
  The all-missing track of length 10 of the specification's scenario, with the default
  configuration: the exception is a ValueError, not an EmptyTrackError.
\<close>

theorem C5_counterexample_not_EmptyTrackError:
  "kalman_filter euler_identity pinv_diagonal (replicate 10 None)
      (Fin (1 / 30)) (Fin 500) (Fin 100) (Fin 1) = Inl empty_reduction_error \<and>
   exc_class empty_reduction_error = ''ValueError'' \<and>
   \<not> raises ''EmptyTrackError'' (kalman_filter euler_identity pinv_diagonal (replicate 10 None)
      (Fin (1 / 30)) (Fin 500) (Fin 100) (Fin 1))"
proof -
  have "preprocess euler_identity (replicate 10 None) = Inl empty_reduction_error"
    by (rule preprocess_all_missing) auto
  then show ?thesis
    by (simp add: kalman_filter_preprocess_error raises_def empty_reduction_error_def)
qed

section \<open>C9: the configuration is never checked\<close>

text \<open>
  Every exception of a call is either one that the scipy call raised, or one of the
  exceptions that the statements of \<^verbatim>\<open>kalman_filter\<close> and the numpy calls raise.
\<close>

lemma kalman_filter_exceptions:
  "\<exists>e. kalman_filter euler pinv poses dt P0 s r = Inl e \<and>
       ((\<exists>R. euler R = Inl e) \<or>
        e \<in> {reshape_error, too_many_indices_error, empty_reduction_error, overflow_error,
             zeros_error, pinv_error, broadcast_error, matmul_error})"
proof (cases "preprocess euler poses")
  case (Inl e)
  from preprocess_errors[OF Inl] show ?thesis
    by (auto simp add: kalman_filter_preprocess_error[OF Inl])
next
  case (Inr v)
  obtain ps an where v: "v = (ps, an)" by (cases v)
  note c = kalman_filter_cases[OF Inr[unfolded v], of dt pinv P0 s r]
  show ?thesis
  proof (cases "config_overflows dt")
    case True
    then show ?thesis using c by simp
  next
    case False
    have "length ps = 1 \<or> 2 \<le> length ps" using c by arith
    then show ?thesis
    proof
      assume "length ps = 1"
      then show ?thesis using c False by auto
    next
      assume "2 \<le> length ps"
      then obtain S where "kalman_filter euler pinv poses dt P0 s r =
          Inl (case pinv S of None \<Rightarrow> pinv_error
               | Some Si \<Rightarrow> if is_mat 6 6 Si then broadcast_error else matmul_error)"
        using c False by blast
      then show ?thesis by (auto split: option.splits)
    qed
  qed
qed

lemma own_exception_classes:
  "e \<in> {reshape_error, too_many_indices_error, empty_reduction_error, overflow_error,
        zeros_error, pinv_error, broadcast_error, matmul_error} \<Longrightarrow>
   exc_class e \<in> {''ValueError'', ''IndexError'', ''OverflowError'', ''TypeError'', ''LinAlgError''}"
  by (auto simp add: reshape_error_def too_many_indices_error_def empty_reduction_error_def
      overflow_error_def zeros_error_def pinv_error_def broadcast_error_def matmul_error_def)

text \<open>
  Claim C9, amended. \<^verbatim>\<open>kalman_filter\<close> validates none of its parameters: for every
  configuration, \<open>dt \<le> 0\<close> and negative variances included, a call raises no
  InvalidConfigurationError (the scipy call, which knows no such class, does not raise
  one either).
\<close>

theorem C9_no_configuration_check:
  assumes "\<forall>R e. euler R = Inl e \<longrightarrow> exc_class e \<noteq> ''InvalidConfigurationError''"
  shows "\<not> raises ''InvalidConfigurationError'' (kalman_filter euler pinv poses dt P0 s r)"
proof -
  obtain e where e: "kalman_filter euler pinv poses dt P0 s r = Inl e" and
    c: "(\<exists>R. euler R = Inl e) \<or>
        e \<in> {reshape_error, too_many_indices_error, empty_reduction_error, overflow_error,
             zeros_error, pinv_error, broadcast_error, matmul_error}"
    using kalman_filter_exceptions by blast
  from c have "exc_class e \<noteq> ''InvalidConfigurationError''"
  proof
    assume "\<exists>R. euler R = Inl e"
    then show ?thesis using assms by blast
  next
    assume "e \<in> {reshape_error, too_many_indices_error, empty_reduction_error, overflow_error,
             zeros_error, pinv_error, broadcast_error, matmul_error}"
    from own_exception_classes[OF this] show ?thesis by auto
  qed
  then show ?thesis by (simp add: e raises_def)
qed

theorem C9_no_configuration_check_witness:
  "\<not> raises ''InvalidConfigurationError''
      (kalman_filter euler_identity pinv_diagonal [Some identity_pose, Some identity_pose]
         (Fin 0) (Fin (- 500)) (Fin (- 100)) (Fin (- 1)))"
proof -
  have "\<forall>R e. euler_identity R = Inl e \<longrightarrow> exc_class e \<noteq> ''InvalidConfigurationError''"
    by (auto simp add: euler_identity_def from_matrix_error_def split: if_splits)
  then show ?thesis by (rule C9_no_configuration_check)
qed

text \<open>
  A configuration with \<open>dt = -1\<close> and negative variances on a one-frame track, and one with
  \<open>dt = 0\<close> on a two-frame track: neither is rejected, and neither call raises an
  InvalidConfigurationError.
\<close>

theorem C9_counterexample_invalid_configuration_accepted:
  "kalman_filter euler_identity pinv_diagonal [Some identity_pose]
      (Fin (- 1)) (Fin (- 500)) (Fin (- 100)) (Fin (- 1)) = Inl zeros_error \<and>
   kalman_filter euler_identity pinv_diagonal [Some identity_pose, Some identity_pose]
      (Fin 0) (Fin 500) (Fin 100) (Fin 1) = Inl broadcast_error \<and>
   exc_class zeros_error \<noteq> ''InvalidConfigurationError'' \<and>
   exc_class broadcast_error \<noteq> ''InvalidConfigurationError''"
proof -
  have n1: "\<not> config_overflows (Fin (- 1))" by (rule no_overflow_small) simp
  have n0: "\<not> config_overflows (Fin 0)" by (rule no_overflow_small) simp
  have one: "kalman_filter euler_identity pinv_diagonal [Some identity_pose]
      (Fin (- 1)) (Fin (- 500)) (Fin (- 100)) (Fin (- 1)) = Inl zeros_error"
    using kalman_filter_cases[OF preprocess_one_identity, of "Fin (- 1)" pinv_diagonal
        "Fin (- 500)" "Fin (- 100)" "Fin (- 1)"] n1
    by auto
  obtain S where S: "is_mat 6 6 S" and
    two: "kalman_filter euler_identity pinv_diagonal [Some identity_pose, Some identity_pose]
      (Fin 0) (Fin 500) (Fin 100) (Fin 1) =
        Inl (case pinv_diagonal S of None \<Rightarrow> pinv_error
             | Some Si \<Rightarrow> if is_mat 6 6 Si then broadcast_error else matmul_error)"
    using kalman_filter_cases[OF preprocess_two_identity, of "Fin 0" pinv_diagonal "Fin 500"
        "Fin 100" "Fin 1"] n0
    by auto
  from pinv_diagonal_shape[OF S] two one show ?thesis
    by (auto simp add: zeros_error_def broadcast_error_def)
qed

section \<open>C1, C2, C4: the update step\<close>

lemma binop1_same_length:
  "length u = k \<Longrightarrow> length v = k \<Longrightarrow> k \<noteq> 1 \<Longrightarrow>
   np_binop1 f u v = Inr (map (\<lambda>i. f (u ! i) (v ! i)) [0..<k])"
  by (simp add: np_binop1_def bcast_ok_def bcast_dim_def bcast_nth_def)

lemma map_upt_const: "(\<And>i. i < k \<Longrightarrow> g i = c) \<Longrightarrow> map g [0..<k] = replicate k c"
  by (simp add: list_eq_iff_nth_eq)

lemma map2_mul_nan: "length u = k \<Longrightarrow> map2 fl_mul u (replicate k NaN) = replicate k NaN"
proof (induction u arbitrary: k)
  case Nil
  then show ?case by simp
next
  case (Cons a u)
  then obtain k' where "k = Suc k'" by (cases k) auto
  with Cons show ?case by (cases a) simp_all
qed

lemma dot_nan: "length u = k \<Longrightarrow> 0 < k \<Longrightarrow> dot u (replicate k NaN) = NaN"
proof -
  assume u: "length u = k" and "0 < k"
  then obtain k' where k: "k = Suc k'" by (cases k) auto
  show ?thesis using map2_mul_nan[OF u] by (simp add: dot_def k)
qed

lemma fl_add_nan_right [simp]: "fl_add a NaN = NaN"
  by (cases a) simp_all

lemma fl_sub_nan_left [simp]: "fl_sub NaN a = NaN"
  by (cases a) simp_all

text \<open>
  Line 137 on the measurement of a frame without a pose, six NaN: the statement runs,
  and the state it assigns to \<^verbatim>\<open>x[i][i]\<close> is NaN in all its 18 components.
\<close>

lemma update_state_missing:
  assumes K: "is_mat 18 6 K" and x: "length xpred = 18"
  shows "update_state K H_mat xpred (replicate 6 NaN) = Inr (replicate 18 NaN)"
proof -
  obtain Hx where 1: "matvec H_mat xpred = Inr Hx" "length Hx = 6"
    using matvec_shape[OF is_mat_H x] by auto
  have "map (\<lambda>i. fl_sub (replicate 6 NaN ! i) (Hx ! i)) [0..<6] = replicate 6 NaN"
    by (rule map_upt_const) simp
  then have 2: "vec_sub (replicate 6 NaN) Hx = Inr (replicate 6 NaN)"
    using binop1_same_length[of "replicate 6 NaN" 6 Hx fl_sub] 1(2)
    by (simp add: vec_sub_def)
  have rows: "\<forall>row\<in>set K. length row = 6" using K by (simp add: is_mat_def list_all_iff)
  have "map (\<lambda>row. dot row (replicate 6 NaN)) K = map (\<lambda>row. NaN) K"
    using rows by (intro map_cong) (auto simp add: dot_nan)
  also have "\<dots> = replicate 18 NaN" using K by (simp add: map_replicate_const is_mat_def)
  finally have 3: "matvec K (replicate 6 NaN) = Inr (replicate 18 NaN)"
    using is_mat_rect[OF K] by (simp add: matvec_def)
  have "map (\<lambda>i. fl_add (xpred ! i) (replicate 18 NaN ! i)) [0..<18] = replicate 18 NaN"
    by (rule map_upt_const) simp
  then have 4: "vec_add xpred (replicate 18 NaN) = Inr (replicate 18 NaN)"
    using binop1_same_length[of xpred 18 "replicate 18 NaN" fl_add] x
    by (simp add: vec_add_def)
  show ?thesis by (simp add: update_state_def 1 2 3 4)
qed

lemma preprocess_gap_identity:
  "preprocess euler_identity [Some identity_pose, None, Some identity_pose] =
     Inr ([[Fin 0, Fin 0, Fin 0], [NaN, NaN, NaN], [Fin 0, Fin 0, Fin 0]],
          [[Fin 0, Fin 0, Fin 0], [NaN, NaN, NaN], [Fin 0, Fin 0, Fin 0]])"
proof -
  have "extract_channels euler_identity [Some identity_pose, None, Some identity_pose] =
      Inr ([[Fin 0, Fin 0, Fin 0], [NaN, NaN, NaN], [Fin 0, Fin 0, Fin 0]],
           [[Fin 0, Fin 0, Fin 0], [NaN, NaN, NaN], [Fin 0, Fin 0, Fin 0]])"
    by (simp only: extract_example) simp
  then show ?thesis
    by (simp add: preprocess_def unwrap_angles_def unwrap_loop_def trim_def np_slice_def
        upt_2 upt_3 unwrap_cell_zero)
qed

lemma kalman_gain_shape:
  assumes P: "is_mat 18 18 Ppred"
    and p: "\<forall>M. is_mat 6 6 M \<longrightarrow> (\<exists>Mi. pinv M = Some Mi \<and> is_mat 6 6 Mi)"
  shows "\<exists>K. kalman_gain pinv H_mat (R_mat r) Ppred = Inr K \<and> is_mat 18 6 K"
proof -
  have Ht: "is_mat 18 6 (np_T H_mat)" using is_mat_T[OF is_mat_H] by simp
  obtain PHt where PHt: "matmul Ppred (np_T H_mat) = Inr PHt" "is_mat 18 6 PHt"
    using matmul_shape[OF P Ht] by auto
  obtain S where S: "innovation_cov H_mat (R_mat r) Ppred = Inr S" "is_mat 6 6 S"
    using innovation_cov_shape[OF P] by auto
  obtain Si where Si: "pinv S = Some Si" "is_mat 6 6 Si" using p S(2) by blast
  obtain K where K: "matmul PHt Si = Inr K" "is_mat 18 6 K"
    using matmul_shape[OF PHt(2) Si(2)] by auto
  show ?thesis by (simp add: kalman_gain_def PHt S call_pinv_def Si K)
qed

lemma pinv_diagonal_total:
  "\<forall>M. is_mat 6 6 M \<longrightarrow> (\<exists>Mi. pinv_diagonal M = Some Mi \<and> is_mat 6 6 Mi)"
  using pinv_diagonal_shape by blast

lemma kalman_filter_pinv_diagonal:
  assumes "preprocess euler poses = Inr (ps, an)" "2 \<le> length ps" "\<not> config_overflows dt"
  shows "kalman_filter euler pinv_diagonal poses dt P0 s r = Inl broadcast_error"
proof -
  obtain S where S: "is_mat 6 6 S" and
    k: "kalman_filter euler pinv_diagonal poses dt P0 s r =
        Inl (case pinv_diagonal S of None \<Rightarrow> pinv_error
             | Some Si \<Rightarrow> if is_mat 6 6 Si then broadcast_error else matmul_error)"
    using kalman_filter_cases[OF assms(1), of dt pinv_diagonal P0 s r] assms(2,3) by auto
  from pinv_diagonal_shape[OF S] k show ?thesis by auto
qed

lemma default_no_overflow: "\<not> config_overflows (Fin (1 / 30))"
  by (rule no_overflow_small) simp

lemma default_matrices:
  "\<exists>F Q. F_mat (Fin (1 / 30)) = Inr F \<and> Q_mat (Fin (1 / 30)) (Fin 100) = Inr Q \<and>
         is_mat 18 18 F \<and> is_mat 18 18 Q"
  using config_matrices[of "Fin (1 / 30)" "Fin 100"] default_no_overflow by blast

text \<open>
  Claim C1: the code does not do what the claim says. On the track
  \<^verbatim>\<open>[T, None, T]\<close> with the default configuration, frame 1 is an interior missing frame:
  its measurement is six NaN. The loop body has no test for a missing measurement; it
  runs the update of line 137 on that measurement, with the gain of line 136 and the
  predicted state of line 129, and the state it computes for frame 1 is NaN in all 18
  components. (The call then raises at line 138, as every call with two frames or more.)
\<close>

theorem C1_missing_frame_update_yields_nan:
  "\<exists>ps an F Q x10 P10 K.
     preprocess euler_identity [Some identity_pose, None, Some identity_pose] = Inr (ps, an) \<and>
     measurement ps an 1 = replicate 6 NaN \<and>
     F_mat (Fin (1 / 30)) = Inr F \<and> Q_mat (Fin (1 / 30)) (Fin 100) = Inr Q \<and>
     predict_state F (x0_init ps an) = Inr x10 \<and>
     predict_cov F Q (P0_init (Fin 500)) = Inr P10 \<and>
     kalman_gain pinv_diagonal H_mat (R_mat (Fin 1)) P10 = Inr K \<and>
     update_state K H_mat x10 (measurement ps an 1) = Inr (replicate 18 NaN) \<and>
     kalman_filter euler_identity pinv_diagonal [Some identity_pose, None, Some identity_pose]
       (Fin (1 / 30)) (Fin 500) (Fin 100) (Fin 1) = Inl broadcast_error"
proof -
  let ?ps = "[[Fin 0, Fin 0, Fin 0], [NaN, NaN, NaN], [Fin 0, Fin 0, Fin 0]]"
  have z: "measurement ?ps ?ps 1 = replicate 6 NaN"
    by (simp add: measurement_def eval_nat_numeral)
  obtain F Q where FQ: "F_mat (Fin (1 / 30)) = Inr F" "Q_mat (Fin (1 / 30)) (Fin 100) = Inr Q"
    "is_mat 18 18 F" "is_mat 18 18 Q"
    using default_matrices by blast
  obtain x10 where x10: "predict_state F (x0_init ?ps ?ps) = Inr x10" "length x10 = 18"
    using predict_state_shape[OF FQ(3) length_x0] by blast
  obtain P10 where P10: "predict_cov F Q (P0_init (Fin 500)) = Inr P10" "is_mat 18 18 P10"
    using predict_cov_shape[OF FQ(3,4) is_mat_P0] by blast
  obtain K where K: "kalman_gain pinv_diagonal H_mat (R_mat (Fin 1)) P10 = Inr K" "is_mat 18 6 K"
    using kalman_gain_shape[OF P10(2) pinv_diagonal_total] by blast
  have u: "update_state K H_mat x10 (measurement ?ps ?ps 1) = Inr (replicate 18 NaN)"
    unfolding z by (rule update_state_missing[OF K(2) x10(2)])
  have f: "kalman_filter euler_identity pinv_diagonal [Some identity_pose, None, Some identity_pose]
       (Fin (1 / 30)) (Fin 500) (Fin 100) (Fin 1) = Inl broadcast_error"
    by (rule kalman_filter_pinv_diagonal[OF preprocess_gap_identity _ default_no_overflow]) simp
  show ?thesis using preprocess_gap_identity z FQ(1,2) x10(1) P10(1) K(1) u f by blast
qed

text \<open>
  Claim C2: the code does not do what the claim says. On the track \<^verbatim>\<open>[T, T]\<close> with the
  default configuration, the first update has an \<open>18 \<times> 6\<close> gain \<open>K\<close>, so \<open>K @ H\<close> is
  \<open>18 \<times> 18\<close>; line 138 subtracts it from \<^verbatim>\<open>np.eye(9)\<close>, a \<open>9 \<times> 9\<close> array, and raises
  the broadcasting ValueError. No covariance in Joseph form is computed or accepted.
\<close>

theorem C2_joseph_form_update_raises:
  "\<exists>F Q P10 K KH.
     F_mat (Fin (1 / 30)) = Inr F \<and> Q_mat (Fin (1 / 30)) (Fin 100) = Inr Q \<and>
     predict_cov F Q (P0_init (Fin 500)) = Inr P10 \<and>
     kalman_gain pinv_diagonal H_mat (R_mat (Fin 1)) P10 = Inr K \<and>
     matmul K H_mat = Inr KH \<and> is_mat 18 18 KH \<and> is_mat 9 9 (np_eye 9) \<and>
     mat_sub (np_eye 9) KH = Inl broadcast_error \<and>
     update_cov K H_mat (R_mat (Fin 1)) P10 = Inl broadcast_error \<and>
     kalman_filter euler_identity pinv_diagonal [Some identity_pose, Some identity_pose]
       (Fin (1 / 30)) (Fin 500) (Fin 100) (Fin 1) = Inl broadcast_error"
proof -
  obtain F Q where FQ: "F_mat (Fin (1 / 30)) = Inr F" "Q_mat (Fin (1 / 30)) (Fin 100) = Inr Q"
    "is_mat 18 18 F" "is_mat 18 18 Q"
    using default_matrices by blast
  obtain P10 where P10: "predict_cov F Q (P0_init (Fin 500)) = Inr P10" "is_mat 18 18 P10"
    using predict_cov_shape[OF FQ(3,4) is_mat_P0] by blast
  obtain K where K: "kalman_gain pinv_diagonal H_mat (R_mat (Fin 1)) P10 = Inr K" "is_mat 18 6 K"
    using kalman_gain_shape[OF P10(2) pinv_diagonal_total] by blast
  obtain KH where KH: "matmul K H_mat = Inr KH" "is_mat 18 18 KH"
    using matmul_shape[OF K(2) is_mat_H] by auto
  have f: "kalman_filter euler_identity pinv_diagonal [Some identity_pose, Some identity_pose]
       (Fin (1 / 30)) (Fin 500) (Fin 100) (Fin 1) = Inl broadcast_error"
    by (rule kalman_filter_pinv_diagonal[OF preprocess_two_identity _ default_no_overflow]) simp
  show ?thesis
    using FQ(1,2) P10(1) K(1) KH is_mat_eye[of 9] eye9_minus_18[OF KH(2)]
      update_cov_raises[OF K(2)] f
    by blast
qed

lemma preprocess_three_identity:
  "preprocess euler_identity [Some identity_pose, Some identity_pose, Some identity_pose] =
     Inr ([[Fin 0, Fin 0, Fin 0], [Fin 0, Fin 0, Fin 0], [Fin 0, Fin 0, Fin 0]],
          [[Fin 0, Fin 0, Fin 0], [Fin 0, Fin 0, Fin 0], [Fin 0, Fin 0, Fin 0]])"
proof -
  have "extract_channels euler_identity [Some identity_pose, Some identity_pose, Some identity_pose] =
      Inr ([[Fin 0, Fin 0, Fin 0], [Fin 0, Fin 0, Fin 0], [Fin 0, Fin 0, Fin 0]],
           [[Fin 0, Fin 0, Fin 0], [Fin 0, Fin 0, Fin 0], [Fin 0, Fin 0, Fin 0]])"
    by (simp only: extract_example) simp
  then show ?thesis
    by (simp add: preprocess_def unwrap_angles_def unwrap_loop_def trim_def np_slice_def
        upt_2 upt_3 unwrap_cell_zero)
qed

text \<open>
  Claim C4: the code does not do what the claim says. On the track \<^verbatim>\<open>[T, T, T]\<close> with
  the default configuration (\<open>dt > 0\<close>, all variances positive) the first update step
  raises at line 138 and the call ends there: the filter never holds a covariance after
  an update step, and the predict steps of lines 140-141 are never reached. This is the
  defect of C2.
\<close>

theorem C4_no_covariance_after_update:
  "\<exists>ps an F Q P10 K.
     preprocess euler_identity [Some identity_pose, Some identity_pose, Some identity_pose]
       = Inr (ps, an) \<and> length ps = 3 \<and>
     F_mat (Fin (1 / 30)) = Inr F \<and> Q_mat (Fin (1 / 30)) (Fin 100) = Inr Q \<and>
     predict_cov F Q (P0_init (Fin 500)) = Inr P10 \<and>
     is_mat 18 18 P10 \<and>
     kalman_gain pinv_diagonal H_mat (R_mat (Fin 1)) P10 = Inr K \<and>
     update_cov K H_mat (R_mat (Fin 1)) P10 = Inl broadcast_error \<and>
     kalman_filter euler_identity pinv_diagonal
       [Some identity_pose, Some identity_pose, Some identity_pose]
       (Fin (1 / 30)) (Fin 500) (Fin 100) (Fin 1) = Inl broadcast_error"
proof -
  obtain F Q where FQ: "F_mat (Fin (1 / 30)) = Inr F" "Q_mat (Fin (1 / 30)) (Fin 100) = Inr Q"
    "is_mat 18 18 F" "is_mat 18 18 Q"
    using default_matrices by blast
  obtain P10 where P10: "predict_cov F Q (P0_init (Fin 500)) = Inr P10" "is_mat 18 18 P10"
    using predict_cov_shape[OF FQ(3,4) is_mat_P0] by blast
  obtain K where K: "kalman_gain pinv_diagonal H_mat (R_mat (Fin 1)) P10 = Inr K" "is_mat 18 6 K"
    using kalman_gain_shape[OF P10(2) pinv_diagonal_total] by blast
  have f: "kalman_filter euler_identity pinv_diagonal
       [Some identity_pose, Some identity_pose, Some identity_pose]
       (Fin (1 / 30)) (Fin 500) (Fin 100) (Fin 1) = Inl broadcast_error"
    by (rule kalman_filter_pinv_diagonal[OF preprocess_three_identity _ default_no_overflow]) simp
  show ?thesis
    using preprocess_three_identity FQ(1,2) P10 K(1) update_cov_raises[OF K(2)] f by force
qed

section \<open>Bounds on \<open>\<pi>\<close>\<close>

lemma lessThan_7: "{..<7::nat} = {0, 1, 2, 3, 4, 5, 6}"
  by auto

lemma sin_coeff_values:
  "sin_coeff (Suc 0) = 1" "sin_coeff 2 = 0" "sin_coeff 3 = - 1 / 6" "sin_coeff 4 = 0"
  "sin_coeff 5 = 1 / 120" "sin_coeff 6 = 0"
  by (simp_all add: sin_coeff_def fact_numeral)

lemma sin_poly7:
  "(\<Sum>m<7. sin_coeff m * x ^ m) = x - x ^ 3 / 6 + x ^ 5 / 120" for x :: real
  by (simp add: lessThan_7 sin_coeff_values)

lemma sin_taylor7: "\<bar>sin x - (x - x ^ 3 / 6 + x ^ 5 / 120)\<bar> \<le> \<bar>x\<bar> ^ 7 / 5040" for x :: real
proof -
  have "\<bar>sin x - (\<Sum>m<7. sin_coeff m * x ^ m)\<bar> \<le> inverse (fact 7) * \<bar>x\<bar> ^ 7"
    by (rule Maclaurin_sin_bound)
  moreover have "inverse (fact 7 :: real) = 1 / 5040"
    by (simp add: fact_numeral)
  ultimately show ?thesis
    unfolding sin_poly7 by simp
qed

text \<open>The sine is increasing around \<open>\<pi>/6\<close>, where it is \<open>1/2\<close>: this locates \<open>\<pi>\<close>.\<close>

lemma pi_gt_314: "3.14 < pi"
proof (rule ccontr)
  assume "\<not> 3.14 < pi"
  then have le: "pi / 6 \<le> 157 / 300" by simp
  have p: "0 \<le> pi" by simp
  have "- (pi / 2) \<le> pi / 6" using p by linarith
  moreover have "(157 / 300 :: real) \<le> pi / 2" using pi_ge_two by simp
  ultimately have "sin (pi / 6) \<le> sin (157 / 300)"
    using le by (intro sin_monotone_2pi_le) auto
  then have 1: "1 / 2 \<le> sin (157 / 300 :: real)" by (simp add: sin_30)
  have "sin (157 / 300 :: real) - (157 / 300 - (157 / 300) ^ 3 / 6 + (157 / 300) ^ 5 / 120)
      \<le> \<bar>157 / 300\<bar> ^ 7 / 5040"
    using sin_taylor7[of "157 / 300"] by (rule order_trans[OF abs_ge_self])
  then have "sin (157 / 300 :: real) < 1 / 2" by (simp add: power_divide)
  with 1 show False by simp
qed

lemma pi_lt_3145: "pi < 3.145"
proof (rule ccontr)
  assume "\<not> pi < 3.145"
  then have le: "629 / 1200 \<le> pi / 6" by simp
  have p: "0 \<le> pi" by simp
  have "pi / 6 \<le> pi / 2" using p by linarith
  moreover have "- (pi / 2) \<le> (629 / 1200 :: real)" using p by linarith
  ultimately have "sin (629 / 1200) \<le> sin (pi / 6)"
    using le by (intro sin_monotone_2pi_le) auto
  then have 1: "sin (629 / 1200 :: real) \<le> 1 / 2" by (simp add: sin_30)
  have "- (sin (629 / 1200 :: real) - (629 / 1200 - (629 / 1200) ^ 3 / 6 + (629 / 1200) ^ 5 / 120))
      \<le> \<bar>629 / 1200\<bar> ^ 7 / 5040"
    using sin_taylor7[of "629 / 1200"] by (rule order_trans[OF abs_ge_minus_self])
  then have "1 / 2 < sin (629 / 1200 :: real)" by (simp add: power_divide)
  with 1 show False by simp
qed

section \<open>The unwrapping loop as a recurrence\<close>

lemma unwrap_cell_adjust:
  "i < length a \<Longrightarrow>
   unwrap_cell i j a = a[i := (a ! i)[j := adjust (a ! i ! j) (a ! (i - 1) ! j)]]"
  by (simp add: unwrap_cell_def adjust_def)

lemma length3_cases: "length row = 3 \<Longrightarrow> \<exists>a b c. row = [a, b, c]"
  by (cases row rule: rows3.cases) auto

lemma cell_step:
  "unwrap_cell (Suc (length pre)) j (pre @ p # y # rest) =
   pre @ p # y[j := adjust (y ! j) (p ! j)] # rest"
  by (simp add: unwrap_cell_adjust nth_append list_update_append)

text \<open>Line 76 for one \<open>i\<close>: row \<open>i\<close> is adjusted against row \<open>i - 1\<close>, dimension by dimension.\<close>

lemma inner_loop:
  assumes "length p = 3" "length row = 3" "length ((pre @ p # row # rest) ! 0) = 3"
  shows "fold (\<lambda>j a. unwrap_cell (Suc (length pre)) j a)
           [0..<length ((pre @ p # row # rest) ! 0)] (pre @ p # row # rest) =
         pre @ p # map2 adjust row p # rest"
proof -
  obtain r0 r1 r2 where row: "row = [r0, r1, r2]" using length3_cases[OF assms(2)] by blast
  obtain p0 p1 p2 where p: "p = [p0, p1, p2]" using length3_cases[OF assms(1)] by blast
  have "fold (\<lambda>j a. unwrap_cell (Suc (length pre)) j a) [0, Suc 0, 2] (pre @ p # row # rest) =
         pre @ p # map2 adjust row p # rest"
    by (simp add: cell_step) (simp add: row p eval_nat_numeral)
  then show ?thesis by (simp only: assms(3) upt_3)
qed

lemma nth0_append_Cons: "(pre @ p # xs) ! 0 = hd (pre @ [p])"
  by (cases pre) simp_all

text \<open>Line 75: the rows from index \<open>length pre + 1\<close> on are adjusted one after the other.\<close>

lemma outer_loop:
  assumes "length p = 3" "\<forall>row\<in>set rest. length row = 3" "length (hd (pre @ [p])) = 3"
  shows "fold (\<lambda>i a. fold (\<lambda>j a. unwrap_cell i j a) [0..<length (a ! 0)] a)
           [Suc (length pre)..<Suc (length pre) + length rest] (pre @ p # rest) =
         pre @ p # unwrap_rows p rest"
  using assms
proof (induction rest arbitrary: pre p)
  case Nil
  then show ?case by simp
next
  case (Cons row rest)
  let ?row' = "map2 adjust row p"
  have row: "length row = 3" using Cons.prems(2) by simp
  have first: "length ((pre @ p # row # rest) ! 0) = 3"
    using Cons.prems(3) by (simp add: nth0_append_Cons)
  have upt: "[Suc (length pre)..<Suc (length pre) + length (row # rest)] =
      Suc (length pre) # [Suc (length (pre @ [p]))..<Suc (length (pre @ [p])) + length rest]"
  proof -
    have "[Suc (length pre)..<Suc (length pre) + length (row # rest)] =
      Suc (length pre) # [Suc (Suc (length pre))..<Suc (length pre) + length (row # rest)]"
      by (rule upt_conv_Cons) simp
    then show ?thesis by simp
  qed
  have step: "fold (\<lambda>j a. unwrap_cell (Suc (length pre)) j a)
           [0..<length ((pre @ p # row # rest) ! 0)] (pre @ p # row # rest) =
         (pre @ [p]) @ ?row' # rest"
    using inner_loop[OF Cons.prems(1) row first] by simp
  have "length ?row' = 3" using row Cons.prems(1) by simp
  moreover have "\<forall>r\<in>set rest. length r = 3" using Cons.prems(2) by simp
  moreover have "length (hd ((pre @ [p]) @ [?row'])) = 3"
    using Cons.prems(3) by (cases pre) simp_all
  ultimately have "fold (\<lambda>i a. fold (\<lambda>j a. unwrap_cell i j a) [0..<length (a ! 0)] a)
           [Suc (length (pre @ [p]))..<Suc (length (pre @ [p])) + length rest]
           ((pre @ [p]) @ ?row' # rest) =
         (pre @ [p]) @ ?row' # unwrap_rows ?row' rest"
    by (rule Cons.IH)
  then show ?case
    unfolding upt by (simp only: fold_simps step) simp
qed

lemma unwrap_loop_Nil: "unwrap_loop [] = []"
  by (simp add: unwrap_loop_def)

lemma unwrap_loop_rows:
  assumes "is_mat m 3 (p # rest)"
  shows "unwrap_loop (p # rest) = p # unwrap_rows p rest"
proof -
  have p: "length p = 3" and rest: "\<forall>row\<in>set rest. length row = 3"
    using assms by (auto simp add: is_mat_def list_all_iff)
  have "fold (\<lambda>i a. fold (\<lambda>j a. unwrap_cell i j a) [0..<length (a ! 0)] a)
           [Suc (length ([] :: mat))..<Suc (length ([] :: mat)) + length rest] ([] @ p # rest) =
         [] @ p # unwrap_rows p rest"
    by (rule outer_loop[OF p rest]) (simp add: p)
  then show ?thesis by (simp add: unwrap_loop_def)
qed

lemma length_map2_adjust: "length row = 3 \<Longrightarrow> length p = 3 \<Longrightarrow> length (map2 adjust row p) = 3"
  by simp

lemma is_mat_unwrap_rows:
  "length p = 3 \<Longrightarrow> is_mat k 3 rest \<Longrightarrow> is_mat k 3 (unwrap_rows p rest)"
proof (induction rest arbitrary: p k)
  case Nil
  then show ?case by (simp add: is_mat_def)
next
  case (Cons row rest)
  then obtain k' where k: "k = Suc k'" by (cases k) (auto simp add: is_mat_def)
  from Cons.prems have "length row = 3" "is_mat k' 3 rest" by (simp_all add: k is_mat_Cons)
  then show ?case using Cons.IH[of "map2 adjust row p" k'] Cons.prems(1)
    by (simp add: k is_mat_Cons)
qed

lemma column_unwrap_rows:
  "length p = 3 \<Longrightarrow> \<forall>row\<in>set rest. length row = 3 \<Longrightarrow> j < 3 \<Longrightarrow>
   column j (unwrap_rows p rest) = unwrap_column (p ! j) (column j rest)"
proof (induction rest arbitrary: p)
  case Nil
  then show ?case by (simp add: column_def)
next
  case (Cons row rest)
  have row: "length row = 3" using Cons.prems(2) by simp
  have nth: "map2 adjust row p ! j = adjust (row ! j) (p ! j)"
    using row Cons.prems(1,3) by simp
  have "column j (unwrap_rows (map2 adjust row p) rest) =
        unwrap_column (map2 adjust row p ! j) (column j rest)"
    using Cons.prems row by (intro Cons.IH) simp_all
  then show ?case by (simp add: column_def nth)
qed

section \<open>The unwrapping step on a track with missing frames\<close>

lemma present_row3: "present_row [a, b, c] \<longleftrightarrow> \<not> isnan a \<and> \<not> isnan b \<and> \<not> isnan c"
  by (simp add: present_row_def)

lemma not_present_nan3: "\<not> present_row nan3"
  by (simp add: present_row_def nan3_def)

lemma filter_concat_present:
  "\<forall>row\<in>set A. row = nan3 \<or> present_row row \<Longrightarrow>
   filter (\<lambda>a. \<not> isnan a) (concat A) = concat (filter present_row A)"
proof (induction A)
  case Nil
  then show ?case by simp
next
  case (Cons row A)
  have "row = nan3 \<or> present_row row" using Cons.prems by simp
  then have "filter (\<lambda>a. \<not> isnan a) row = (if present_row row then row else [])"
  proof
    assume "row = nan3"
    then show ?thesis by (simp add: nan3_def present_row_def)
  next
    assume "present_row row"
    then show ?thesis by (simp add: present_row_def list_all_iff filter_id_conv)
  qed
  then show ?case using Cons by simp
qed

lemma rows3_concat: "is_mat k 3 M \<Longrightarrow> rows3 (concat M) = M"
proof (induction M arbitrary: k)
  case Nil
  then show ?case by simp
next
  case (Cons row M)
  then obtain k' where k: "k = Suc k'" by (cases k) (auto simp add: is_mat_def)
  from Cons.prems have r: "length row = 3" and M: "is_mat k' 3 M"
    by (simp_all add: k is_mat_Cons)
  obtain a b c where row: "row = [a, b, c]" using length3_cases[OF r] by blast
  show ?case using Cons.IH[OF M] by (simp add: row)
qed

lemma is_mat_filter: "is_mat m c A \<Longrightarrow> is_mat (length (filter P A)) c (filter P A)"
  by (simp add: is_mat_def list_all_iff)

lemma rows3_scatter:
  assumes "is_mat m 3 A" "\<forall>row\<in>set A. row = nan3 \<or> present_row row"
    "is_mat (length (filter present_row A)) 3 B"
  shows "rows3 (scatter (concat A) (concat B)) = merge_rows A B"
  using assms
proof (induction A arbitrary: m B)
  case Nil
  then show ?case by simp
next
  case (Cons row A)
  then obtain m' where m: "m = Suc m'" by (cases m) (auto simp add: is_mat_def)
  from Cons.prems(1) have A: "is_mat m' 3 A" by (simp add: m is_mat_Cons)
  have rest: "\<forall>r\<in>set A. r = nan3 \<or> present_row r" using Cons.prems(2) by simp
  have "row = nan3 \<or> (row \<noteq> nan3 \<and> present_row row)" using Cons.prems(2) by auto
  then show ?case
  proof
    assume n: "row = nan3"
    then have "is_mat (length (filter present_row A)) 3 B"
      using Cons.prems(3) by (simp add: not_present_nan3)
    from Cons.IH[OF A rest this] show ?thesis by (simp add: n nan3_def)
  next
    assume pr: "row \<noteq> nan3 \<and> present_row row"
    have r: "length row = 3" using Cons.prems(1) by (simp add: m is_mat_Cons)
    obtain a b c where row: "row = [a, b, c]" using length3_cases[OF r] by blast
    have B: "is_mat (Suc (length (filter present_row A))) 3 B" using Cons.prems(3) pr by simp
    then obtain b' B' where Bc: "B = b' # B'" by (cases B) (auto simp add: is_mat_def)
    from B have b': "length b' = 3" and B': "is_mat (length (filter present_row A)) 3 B'"
      by (simp_all add: Bc is_mat_Cons)
    obtain x y z where xyz: "b' = [x, y, z]" using length3_cases[OF b'] by blast
    have nn: "\<not> isnan a" "\<not> isnan b" "\<not> isnan c" using pr by (simp_all add: row present_row3)
    from Cons.IH[OF A rest B'] show ?thesis
      using pr nn by (simp add: row Bc xyz)
  qed
qed

text \<open>
  Lines 74-81 on an array whose rows are either all NaN (a frame without a pose) or
  free of NaN: the loop runs on the present rows, in frame order, and its result goes
  back to the frames they came from.
\<close>

lemma unwrap_angles_merge:
  assumes "is_mat m 3 A" "\<forall>row\<in>set A. row = nan3 \<or> present_row row"
  shows "unwrap_angles A = Inr (merge_rows A (unwrap_loop (filter present_row A)))"
proof -
  let ?B = "filter present_row A"
  have B: "is_mat (length ?B) 3 ?B" by (rule is_mat_filter[OF assms(1)])
  have flat: "filter (\<lambda>a. \<not> isnan a) (concat A) = concat ?B"
    by (rule filter_concat_present[OF assms(2)])
  have len: "length (concat ?B) mod 3 = 0" using length_concat_is_mat[OF B] by simp
  have r: "rows3 (concat ?B) = ?B" by (rule rows3_concat[OF B])
  have U: "is_mat (length ?B) 3 (unwrap_loop ?B)"
  proof (cases ?B)
    case Nil
    then show ?thesis by (simp add: unwrap_loop_Nil is_mat_def)
  next
    case (Cons p rest)
    have "is_mat (length ?B) 3 (p # rest)" using B Cons by simp
    then have p: "length p = 3" and rest: "is_mat (length rest) 3 rest"
      by (auto simp add: is_mat_def)
    have "unwrap_loop (p # rest) = p # unwrap_rows p rest"
      using B unwrap_loop_rows[of "length ?B" p rest] Cons by simp
    then show ?thesis
      using is_mat_unwrap_rows[OF p rest] p by (simp add: Cons is_mat_def)
  qed
  show ?thesis
    by (simp add: unwrap_angles_def flat len r rows3_scatter[OF assms U])
qed

lemma column_unwrap_loop:
  assumes "is_mat k 3 B" "j < 3"
  shows "column j (unwrap_loop B) =
         (case column j B of [] \<Rightarrow> [] | c # cs \<Rightarrow> c # unwrap_column c cs)"
proof (cases B)
  case Nil
  then show ?thesis by (simp add: unwrap_loop_Nil column_def)
next
  case (Cons p rest)
  have p: "length p = 3" and rest: "\<forall>row\<in>set rest. length row = 3"
    using assms(1) by (auto simp add: Cons is_mat_def list_all_iff)
  have "column j (unwrap_rows p rest) = unwrap_column (p ! j) (column j rest)"
    by (rule column_unwrap_rows[OF p rest assms(2)])
  then show ?thesis
    using unwrap_loop_rows[of k p rest] assms(1) by (simp add: Cons column_def)
qed

section \<open>C6: which samples the unwrapping changes\<close>

text \<open>
  Claim C6, amended. On an angle array whose rows are either all NaN (no pose) or free of
  NaN, the unwrapping walks the present rows in frame order and puts the result back at
  their frames. In each of the three dimensions the result is the recurrence
  \<open>unwrap_column\<close>: the first present sample is kept, and each later sample is compared
  with the already adjusted present sample before it; when the difference exceeds
  \<open>1.8\<pi>\<close> it has \<open>2\<pi>\<close> subtracted, when the difference is below \<open>-1.8\<pi>\<close> it has \<open>2\<pi>\<close>
  added, and no other sample is changed by that step (the samples after it are not
  shifted with it; each is adjusted on its own turn, by at most one \<open>2\<pi>\<close>).
\<close>

theorem C6_unwrap_adjusts_current_sample_only:
  assumes "is_mat m 3 A" "\<forall>row\<in>set A. row = nan3 \<or> present_row row"
  shows "unwrap_angles A = Inr (merge_rows A (unwrap_loop (filter present_row A))) \<and>
    (\<forall>j<3. column j (unwrap_loop (filter present_row A)) =
       (case column j (filter present_row A) of [] \<Rightarrow> [] | c # cs \<Rightarrow> c # unwrap_column c cs))"
  using unwrap_angles_merge[OF assms] column_unwrap_loop[OF is_mat_filter[OF assms(1)]]
  by blast

lemma adjust_keep: "\<bar>a - b\<bar> \<le> 5.65 \<Longrightarrow> adjust (Fin a) (Fin b) = Fin a"
  using pi_gt_314 by (auto simp add: adjust_def abs_le_iff)

lemma adjust_up: "a - b \<le> - 5.67 \<Longrightarrow> adjust (Fin a) (Fin b) = Fin (a + 2 * pi)"
  using pi_gt_314 pi_lt_3145 by (simp add: adjust_def)

lemma adjust_down: "5.67 \<le> a - b \<Longrightarrow> adjust (Fin a) (Fin b) = Fin (a - 2 * pi)"
  using pi_gt_314 pi_lt_3145 by (simp add: adjust_def)

lemma merge_rows_all_present:
  "\<forall>row\<in>set A. row \<noteq> nan3 \<Longrightarrow> length B = length A \<Longrightarrow> merge_rows A B = B"
proof (induction A arbitrary: B)
  case Nil
  then show ?case by simp
next
  case (Cons row A)
  then obtain b B' where "B = b # B'" by (cases B) auto
  with Cons show ?case by simp
qed

lemma present_not_nan3: "present_row row \<Longrightarrow> row \<noteq> nan3"
  using not_present_nan3 by auto

lemma length_unwrap_loop: "is_mat k 3 B \<Longrightarrow> length (unwrap_loop B) = k"
proof (cases B)
  case Nil
  assume "is_mat k 3 B"
  then show ?thesis using Nil by (simp add: unwrap_loop_Nil is_mat_def)
next
  case (Cons p rest)
  assume B: "is_mat k 3 B"
  then have p: "length p = 3" and rest: "is_mat (length rest) 3 rest"
    by (auto simp add: Cons is_mat_def)
  have "unwrap_loop (p # rest) = p # unwrap_rows p rest"
    using B unwrap_loop_rows[of k p rest] Cons by simp
  then show ?thesis
    using is_mat_unwrap_rows[OF p rest] B by (simp add: Cons is_mat_def)
qed

text \<open>With a pose in every frame, the step returns what the loop computes.\<close>

lemma unwrap_angles_all_present:
  assumes "is_mat m 3 A" "\<forall>row\<in>set A. present_row row"
  shows "unwrap_angles A = Inr (unwrap_loop A)"
proof -
  have f: "filter present_row A = A" using assms(2) by (simp add: filter_id_conv)
  have "unwrap_angles A = Inr (merge_rows A (unwrap_loop A))"
    using unwrap_angles_merge[OF assms(1)] assms(2) by (simp add: f)
  moreover have "merge_rows A (unwrap_loop A) = unwrap_loop A"
    using assms length_unwrap_loop[OF assms(1)]
    by (intro merge_rows_all_present) (auto simp add: present_not_nan3 is_mat_def)
  ultimately show ?thesis by simp
qed

lemma unwrap_column_wrap:
  "unwrap_column (Fin 3) [Fin 3.1, Fin (- 3.1), Fin (- 3)] =
     [Fin 3.1, Fin (2 * pi - 3.1), Fin (2 * pi - 3)]"
proof -
  have 1: "adjust (Fin 3.1) (Fin 3) = Fin 3.1" by (rule adjust_keep) simp
  have 2: "adjust (Fin (- 3.1)) (Fin 3.1) = Fin (2 * pi - 3.1)"
    using adjust_up[of "- 3.1" "3.1"] by (simp add: algebra_simps)
  have "- 3 - (2 * pi - 3.1) \<le> - 5.67" using pi_gt_314 by simp
  then have 3: "adjust (Fin (- 3)) (Fin (2 * pi - 3.1)) = Fin (2 * pi - 3)"
    using adjust_up[of "- 3" "2 * pi - 3.1"] by (simp add: algebra_simps)
  show ?thesis by (simp add: 1 2 3)
qed

section \<open>C7: the wrap across \<open>\<pi>\<close>\<close>

text \<open>
  Claim C7. When every frame has a pose and one angle dimension \<open>j\<close> holds the samples
  \<open>3.0, 3.1, -3.1, -3.0\<close>, the unwrapping step returns an array whose dimension \<open>j\<close> holds
  \<open>3.0, 3.1, 2\<pi> - 3.1, 2\<pi> - 3.0\<close>: the last two samples are each shifted up by \<open>2\<pi>\<close>.
  The sequence is increasing, and its last two values are \<open>3.18\<dots>\<close> and \<open>3.28\<dots>\<close>.
\<close>

theorem C7_wrap_crossing_pi:
  assumes "is_mat 4 3 A" "\<forall>row\<in>set A. present_row row" "j < 3"
    "column j A = [Fin 3, Fin 3.1, Fin (- 3.1), Fin (- 3)]"
  shows "\<exists>A'. unwrap_angles A = Inr A' \<and>
     column j A' = [Fin 3, Fin 3.1, Fin (2 * pi - 3.1), Fin (2 * pi - 3)] \<and>
     3 < (3.1 :: real) \<and> 3.1 < 2 * pi - 3.1 \<and> 2 * pi - 3.1 < 2 * pi - 3 \<and>
     3.18 < 2 * pi - 3.1 \<and> 2 * pi - 3.1 < 3.19 \<and> 3.28 < 2 * pi - 3 \<and> 2 * pi - 3 < 3.29"
proof -
  have "column j (unwrap_loop A) =
      (case column j A of [] \<Rightarrow> [] | c # cs \<Rightarrow> c # unwrap_column c cs)"
    by (rule column_unwrap_loop[OF assms(1,3)])
  also have "\<dots> = Fin 3 # unwrap_column (Fin 3) [Fin 3.1, Fin (- 3.1), Fin (- 3)]"
    by (simp only: assms(4) list.case)
  also have "\<dots> = [Fin 3, Fin 3.1, Fin (2 * pi - 3.1), Fin (2 * pi - 3)]"
    by (simp only: unwrap_column_wrap)
  finally have "column j (unwrap_loop A) = [Fin 3, Fin 3.1, Fin (2 * pi - 3.1), Fin (2 * pi - 3)]" .
  then show ?thesis
    using unwrap_angles_all_present[OF assms(1,2)] pi_gt_314 pi_lt_3145 by simp
qed

theorem C7_wrap_crossing_pi_witness:
  "\<exists>A'. unwrap_angles [[Fin 3, Fin 0, Fin 0], [Fin 3.1, Fin 0, Fin 0],
                        [Fin (- 3.1), Fin 0, Fin 0], [Fin (- 3), Fin 0, Fin 0]] = Inr A' \<and>
     column 0 A' = [Fin 3, Fin 3.1, Fin (2 * pi - 3.1), Fin (2 * pi - 3)]"
proof -
  let ?A = "[[Fin 3, Fin 0, Fin 0], [Fin 3.1, Fin 0, Fin 0],
             [Fin (- 3.1), Fin 0, Fin 0], [Fin (- 3), Fin 0, Fin 0]]"
  have 1: "is_mat 4 3 ?A" by (simp add: is_mat_def)
  have 2: "\<forall>row\<in>set ?A. present_row row" by (simp add: present_row_def)
  have 3: "column 0 ?A = [Fin 3, Fin 3.1, Fin (- 3.1), Fin (- 3)]" by (simp add: column_def)
  from C7_wrap_crossing_pi[OF 1 2 _ 3] show ?thesis by auto
qed

text \<open>
  The samples \<open>3.0, -3.0, 0.0\<close> in dimension 0. The second sample is \<open>6\<close> below the first,
  which is below \<open>-1.8\<pi>\<close>, and has \<open>2\<pi>\<close> added. The third sample is not shifted with it: it
  stays \<open>0.0\<close>, where the unwrapping as the specification words it gives \<open>2\<pi>\<close>.
\<close>

lemma unwrap_column_no_carry:
  "unwrap_column (Fin 3) [Fin (- 3), Fin 0] = [Fin (2 * pi - 3), Fin 0]"
proof -
  have 1: "adjust (Fin (- 3)) (Fin 3) = Fin (2 * pi - 3)"
    using adjust_up[of "- 3" "3"] by (simp add: algebra_simps)
  have "\<bar>0 - (2 * pi - 3)\<bar> \<le> 5.65" using pi_gt_314 pi_lt_3145 by simp
  then have 2: "adjust (Fin 0) (Fin (2 * pi - 3)) = Fin 0" by (rule adjust_keep)
  show ?thesis by (simp add: 1 2)
qed

theorem C6_counterexample_later_samples_not_shifted:
  "(\<exists>A'. unwrap_angles [[Fin 3, Fin 0, Fin 0], [Fin (- 3), Fin 0, Fin 0], [Fin 0, Fin 0, Fin 0]]
          = Inr A' \<and>
        column 0 A' = [Fin 3, Fin (2 * pi - 3), Fin 0]) \<and>
   fl_lt (fl_sub (Fin (- 3)) (Fin 3)) (Fin (- 1.8 * pi)) \<and>
   spec_unwrap_column (Fin 3) [Fin (- 3), Fin 0] = [Fin (2 * pi - 3), Fin (2 * pi)] \<and>
   Fin 0 \<noteq> Fin (2 * pi)"
proof -
  let ?A = "[[Fin 3, Fin 0, Fin 0], [Fin (- 3), Fin 0, Fin 0], [Fin 0, Fin 0, Fin 0]]"
  have 1: "is_mat 3 3 ?A" by (simp add: is_mat_def)
  have 2: "\<forall>row\<in>set ?A. present_row row" by (simp add: present_row_def)
  have c0: "column 0 ?A = [Fin 3, Fin (- 3), Fin 0]" by (simp add: column_def)
  have "column 0 (unwrap_loop ?A) =
      (case column 0 ?A of [] \<Rightarrow> [] | c # cs \<Rightarrow> c # unwrap_column c cs)"
    by (rule column_unwrap_loop[OF 1]) simp
  also have "\<dots> = Fin 3 # unwrap_column (Fin 3) [Fin (- 3), Fin 0]"
    by (simp only: c0 list.case)
  also have "\<dots> = [Fin 3, Fin (2 * pi - 3), Fin 0]"
    by (simp only: unwrap_column_no_carry)
  finally have "column 0 (unwrap_loop ?A) = [Fin 3, Fin (2 * pi - 3), Fin 0]" .
  then have a: "\<exists>A'. unwrap_angles ?A = Inr A' \<and> column 0 A' = [Fin 3, Fin (2 * pi - 3), Fin 0]"
    using unwrap_angles_all_present[OF 1 2] by simp
  have b: "fl_lt (fl_sub (Fin (- 3)) (Fin 3)) (Fin (- 1.8 * pi))"
    using pi_lt_3145 by simp
  have c: "\<not> fl_gt (fl_sub (Fin (- 3)) (Fin 3)) (Fin (1.8 * pi))"
    using pi_gt_314 by simp
  have d: "\<not> fl_gt (fl_sub (Fin (2 * pi)) (Fin (2 * pi - 3))) (Fin (1.8 * pi))"
    using pi_gt_314 by simp
  have e: "\<not> fl_lt (fl_sub (Fin (2 * pi)) (Fin (2 * pi - 3))) (Fin (- 1.8 * pi))"
    using pi_gt_314 by simp
  have s: "spec_unwrap_column (Fin 3) [Fin (- 3), Fin 0] = [Fin (2 * pi - 3), Fin (2 * pi)]"
    using b c d e by (simp add: algebra_simps)
  have "Fin 0 \<noteq> Fin (2 * pi)" by simp
  with a b s show ?thesis by blast
qed

theorem C6_unwrap_adjusts_current_sample_only_witness:
  "unwrap_angles [[Fin 3, Fin 0, Fin 0], [NaN, NaN, NaN], [Fin (- 3), Fin 0, Fin 0]] =
     Inr (merge_rows [[Fin 3, Fin 0, Fin 0], [NaN, NaN, NaN], [Fin (- 3), Fin 0, Fin 0]]
            (unwrap_loop [[Fin 3, Fin 0, Fin 0], [Fin (- 3), Fin 0, Fin 0]])) \<and>
   column 0 (unwrap_loop [[Fin 3, Fin 0, Fin 0], [Fin (- 3), Fin 0, Fin 0]]) =
     [Fin 3, Fin (2 * pi - 3)]"
proof -
  let ?A = "[[Fin 3, Fin 0, Fin 0], [NaN, NaN, NaN], [Fin (- 3), Fin 0, Fin 0]]"
  have 1: "is_mat 3 3 ?A" by (simp add: is_mat_def)
  have 2: "\<forall>row\<in>set ?A. row = nan3 \<or> present_row row"
    by (simp add: present_row_def nan3_def)
  have f: "filter present_row ?A = [[Fin 3, Fin 0, Fin 0], [Fin (- 3), Fin 0, Fin 0]]"
    by (simp add: present_row_def)
  have u: "unwrap_column (Fin 3) [Fin (- 3)] = [Fin (2 * pi - 3)]"
    using adjust_up[of "- 3" "3"] by (simp add: algebra_simps)
  let ?B = "[[Fin 3, Fin 0, Fin 0], [Fin (- 3), Fin 0, Fin 0]]"
  note inst = C6_unwrap_adjusts_current_sample_only[OF 1 2, unfolded f]
  have a: "unwrap_angles ?A = Inr (merge_rows ?A (unwrap_loop ?B))"
    using inst by (rule conjunct1)
  have c0: "column 0 ?B = [Fin 3, Fin (- 3)]" by (simp add: column_def)
  have "column 0 (unwrap_loop ?B) =
      (case column 0 ?B of [] \<Rightarrow> [] | c # cs \<Rightarrow> c # unwrap_column c cs)"
    by (rule conjunct2[OF inst, rule_format]) simp
  also have "\<dots> = Fin 3 # unwrap_column (Fin 3) [Fin (- 3)]"
    by (simp only: c0 list.case)
  also have "\<dots> = [Fin 3, Fin (2 * pi - 3)]"
    by (simp only: u)
  finally have col: "column 0 (unwrap_loop ?B) = [Fin 3, Fin (2 * pi - 3)]" .
  show ?thesis using a col by (rule conjI)
qed


end
